theory Spec2Isabelle
  imports Main "HOL-Library.Word" "HOL-Library.Multiset" "HOL-Library.Product_Lexorder"
begin

section \<open>The client-side Batcher of src/yb/client/batcher.cc\<close>

text \<open>
  The Batcher is a class whose methods mutate its members and call collaborators (session,
  transaction, meta cache, callback thread pool, RPC layer).  The embedding passes the
  Batcher as a record: its members, the answers the collaborators give (fields marked
  environment), and logs of the calls made on collaborators (fields marked observation).
  A method that can crash (a failed CHECK, a call of an empty functor, a dereference of a
  null pointer) returns \<open>failure + Batcher\<close>.  Member names lose the trailing underscore of
  the source.  Logging statements (VLOG, LOG) and tracing are left out.
\<close>

subsection \<open>Status\<close>

text \<open>The status codes and client error codes that batcher.cc names, and one constructor
  each for all the others.\<close>

datatype StatusCode = Ok | IOError | IllegalState | InternalError | Aborted | Combined
  | OtherCode nat

datatype ClientErrorCode = kNone | kTablePartitionListIsStale
  | kTablePartitionListVersionDoesNotMatch | kOtherClientError nat

text \<open>A message is kept as its format and arguments: the rendering of operations, keys
  and partitions to text (ToString, ToDebugHexString, PartitionDebugString) is outside
  batcher.cc.  Operations are named by their identity, in-flight ops by sequence number.\<close>

datatype Message =
    Text string
  | HashPartitionKeyIsEmptyFor nat
  | RowNotInPartition nat string
  | RequestedPartitionListVersion nat nat nat
  | Prepended nat Message

datatype Status = Status (code: StatusCode) (message: Message) (ClientError: ClientErrorCode)

definition ok :: "Status \<Rightarrow> bool" where
  "ok s = (code s = Ok)"

definition OK :: Status where
  "OK = Status Ok (Text []) kNone"

definition IsCombined :: "Status \<Rightarrow> bool" where
  "IsCombined s = (code s = Combined)"

definition kErrorReachingOutToTServersMsg :: string where
  "kErrorReachingOutToTServersMsg = ''Errors occurred while reaching out to the tablet servers''"

definition kGeneralErrorStatus :: Status where
  "kGeneralErrorStatus = Status IOError (Text kErrorReachingOutToTServersMsg) kNone"

subsection \<open>Operations, tablets, in-flight operations\<close>

type_synonym PartitionKey = string

text \<open>A RemoteTablet is known to the Batcher through its address (\<open>tablet.get()\<close>; a live
  object has a nonzero address), the keys its partition contains (\<open>partition().ContainsKey\<close>)
  and its partition list version.\<close>

record RemoteTablet =
  address :: nat
  partition :: "PartitionKey set"
  tablet_partition_list_version :: nat

definition ContainsKey :: "RemoteTablet \<Rightarrow> PartitionKey \<Rightarrow> bool" where
  "ContainsKey t k = (k \<in> partition t)"

datatype OpType = QL_READ | QL_WRITE | PGSQL_READ | PGSQL_WRITE | REDIS_READ | REDIS_WRITE

text \<open>Modelled from the spec: the enum OpGroup is declared in yb_op.h, which is not among
  the sources; the spec gives its three values as Write, LeaderRead, ConsistentPrefixRead,
  and \<open>group_rank\<close> numbers them in that order (the order of the cases of CreateRpc too).\<close>

datatype OpGroup = kWrite | kLeaderRead | kConsistentPrefixRead

fun group_rank :: "OpGroup \<Rightarrow> nat" where
  "group_rank kWrite = 0"
| "group_rank kLeaderRead = 1"
| "group_rank kConsistentPrefixRead = 2"

text \<open>What the Batcher reads from a YBOperation: \<open>op_id\<close> is the identity of the shared
  object, \<open>key_status\<close> and \<open>key_bytes\<close> are what GetPartitionKey returns and writes,
  \<open>op_tablet\<close> is the tablet hint \<open>tablet()\<close>.\<close>

record YBOperation =
  op_id :: nat
  op_type :: OpType
  op_group :: OpGroup
  key_status :: Status
  key_bytes :: PartitionKey
  IsHashPartitioning :: bool
  read_only :: bool
  op_tablet :: "RemoteTablet option"
  partition_list_version :: "nat option"
  namespace_name :: string

record InFlightOp =
  yb_op :: YBOperation
  partition_key :: PartitionKey
  tablet :: "RemoteTablet option"
  error :: Status
  sequence_number :: nat

text \<open>The constructor \<open>InFlightOp(yb_op, seq)\<close>: empty key, no tablet, ok status.\<close>

definition new_InFlightOp :: "YBOperation \<Rightarrow> nat \<Rightarrow> InFlightOp" where
  "new_InFlightOp op seq =
     \<lparr>yb_op = op, partition_key = [], tablet = None, error = OK, sequence_number = seq\<rparr>"

text \<open>\<open>tablet.get()\<close>: the address, 0 for the null pointer.\<close>

definition get :: "RemoteTablet option \<Rightarrow> nat" where
  "get t = (case t of None \<Rightarrow> 0 | Some r \<Rightarrow> address r)"

text \<open>A group is a half-open range of positions of \<open>ops_queue\<close>; an RPC keeps such a range
  too (\<open>InFlightOps(group.begin, group.end)\<close> is a pair of iterators into the queue), so
  what a response writes to the ops of an RPC is written to the queue.\<close>

record InFlightOpsGroup =
  group_begin :: nat
  group_end :: nat
  need_metadata :: bool

datatype YBConsistencyLevel = STRONG | CONSISTENT_PREFIX

datatype RpcKind = WriteRpc | ReadRpc YBConsistencyLevel

record AsyncRpc =
  rpc_kind :: RpcKind
  rpc_tablet :: nat
  rpc_allow_local_calls_in_curr_thread :: bool
  rpc_need_consistent_read :: bool
  rpc_ops_begin :: nat
  rpc_ops_end :: nat
  rpc_need_metadata :: bool

subsection \<open>The Batcher\<close>

datatype BatcherState = kGatheringOps | kResolvingTablets | kTransactionPrepare
  | kTransactionReady | kComplete | kAborted

datatype failure = CheckFailed | BadFunctionCall | InvalidReference

text \<open>Calls on collaborators that leave no mark on the Batcher.\<close>

datatype event =
    SessionFlushStarted
  | SessionFlushFinished
  | ExpectOperations nat
  | SetHashCode nat PartitionKey
  | LookupTabletByKey nat
  | MarkTablePartitionListAsStale nat
  | TransactionPrepare bool
  | TransactionFlushed nat nat Status
  | UpdateClock nat
  | UpdateLatestObservedHybridTime nat
  | ThreadPoolSubmit

text \<open>
  Members: \<open>state\<close> to \<open>deadline\<close>.  The counters are \<open>int\<close>: the code only decrements them
  by one and compares them with 0.  \<open>flush_callback\<close> holds the identity of the user's
  functor, \<open>None\<close> for the empty StatusFunctor.  \<open>transaction\<close> and \<open>read_point\<close> say whether
  the handle is set.

  Environment: \<open>session_alive\<close> (whether \<open>weak_session_.lock()\<close> gives a session),
  \<open>callback_threadpool\<close> (whether the client has one) and \<open>submit_ok\<close> (whether its Submit
  succeeds), \<open>prepare_ready\<close> and \<open>prepare_need_metadata\<close> (what \<open>transaction->Prepare\<close>
  returns and the flags it sets on the groups, by position), the test flag
  \<open>TEST_combine_batcher_errors\<close>, and \<open>simulate_mismatch\<close> (per sequence number, the draw
  of RandomActWithProbability for the test flag
  simulate_tablet_lookup_does_not_match_partition_key_probability).

  Observations: \<open>calls\<close>, \<open>callback_calls\<close> (each invocation of the user's functor with
  its status), \<open>pool_queue\<close> (the number of submitted Run tasks the pool has not run yet)
  and \<open>sent_rpcs\<close>.
\<close>

record Batcher =
  state :: BatcherState
  ops :: "YBOperation list"
  ops_queue :: "InFlightOp list"
  groups :: "InFlightOpsGroup list"
  outstanding_lookups :: int
  outstanding_rpcs :: int
  error_collector :: "(YBOperation \<times> Status) list"
  combined_error :: Status
  flush_callback :: "nat option"
  transaction :: bool
  read_point :: bool
  force_consistent_read :: bool
  allow_local_calls_in_curr_thread :: bool
  deadline :: nat
  session_alive :: bool
  callback_threadpool :: bool
  submit_ok :: bool
  prepare_ready :: bool
  prepare_need_metadata :: "bool list"
  TEST_combine_batcher_errors :: bool
  simulate_mismatch :: "nat \<Rightarrow> bool"
  calls :: "event list"
  callback_calls :: "(nat \<times> Status) list"
  pool_queue :: nat
  sent_rpcs :: "AsyncRpc list"

definition and_then :: "failure + 'a \<Rightarrow> ('a \<Rightarrow> failure + 'b) \<Rightarrow> failure + 'b" where
  "and_then m f = (case m of Inl e \<Rightarrow> Inl e | Inr x \<Rightarrow> f x)"

definition call :: "event \<Rightarrow> Batcher \<Rightarrow> Batcher" where
  "call e b = b\<lparr>calls := calls b @ [e]\<rparr>"

text \<open>The error collector: AddError appends, CountErrors counts.\<close>

definition AddError :: "YBOperation \<Rightarrow> Status \<Rightarrow> Batcher \<Rightarrow> Batcher" where
  "AddError op s b = b\<lparr>error_collector := error_collector b @ [(op, s)]\<rparr>"

definition CountErrors :: "Batcher \<Rightarrow> nat" where
  "CountErrors b = length (error_collector b)"

subsection \<open>Lifecycle: Run, RunCallback, FlushFinished, Abort\<close>

text \<open>\<open>Run\<close> calls the stored functor with the aggregated status and clears the slot.
  Calling an empty functor throws bad_function_call.\<close>

definition Run :: "Batcher \<Rightarrow> failure + Batcher" where
  "Run b =
     (case flush_callback b of
        None \<Rightarrow> Inl BadFunctionCall
      | Some cb \<Rightarrow>
          Inr (b\<lparr>callback_calls := callback_calls b @ [(cb, combined_error b)],
                 flush_callback := None\<rparr>))"

definition RunCallback :: "Batcher \<Rightarrow> failure + Batcher" where
  "RunCallback b =
     (if \<not> callback_threadpool b then Run b
      else if \<not> submit_ok b then Run (call ThreadPoolSubmit b)
      else Inr ((call ThreadPoolSubmit b)\<lparr>pool_queue := pool_queue b + 1\<rparr>))"

text \<open>The callback thread pool running one submitted task: it calls \<open>Run\<close>.\<close>

definition ThreadPoolRun :: "Batcher \<Rightarrow> failure + Batcher" where
  "ThreadPoolRun b =
     (if pool_queue b = 0 then Inr b else Run (b\<lparr>pool_queue := pool_queue b - 1\<rparr>))"

definition FlushFinished :: "Batcher \<Rightarrow> failure + Batcher" where
  "FlushFinished b =
     (let b1 = (if state b \<noteq> kAborted then b\<lparr>state := kComplete\<rparr> else b);
          b2 = (if session_alive b1 then call SessionFlushFinished b1 else b1);
          b3 = (if ok (combined_error b2) \<and> CountErrors b2 \<noteq> 0
                then b2\<lparr>combined_error := kGeneralErrorStatus\<rparr> else b2)
      in RunCallback b3)"

fun AddError_all :: "InFlightOp list \<Rightarrow> Status \<Rightarrow> Batcher \<Rightarrow> Batcher" where
  "AddError_all [] s b = b"
| "AddError_all (op # rest) s b = AddError_all rest s (AddError (yb_op op) s b)"

definition Abort :: "Status \<Rightarrow> Batcher \<Rightarrow> failure + Batcher" where
  "Abort s b =
     FlushFinished ((AddError_all (ops_queue b) s b)\<lparr>combined_error := s, state := kAborted\<rparr>)"

definition SetDeadline :: "nat \<Rightarrow> Batcher \<Rightarrow> Batcher" where
  "SetDeadline d b = b\<lparr>deadline := d\<rparr>"

definition HasPendingOperations :: "Batcher \<Rightarrow> bool" where
  "HasPendingOperations b = (ops b \<noteq> [])"

text \<open>The return type is \<open>int\<close>: the size is converted to 32 bits.\<close>

definition CountBufferedOperations :: "Batcher \<Rightarrow> int" where
  "CountBufferedOperations b =
     (if state b = kGatheringOps then sint (word_of_nat (length (ops b)) :: 32 word) else 0)"

fun Has_loop :: "YBOperation list \<Rightarrow> YBOperation \<Rightarrow> bool" where
  "Has_loop [] y = False"
| "Has_loop (op # rest) y = (if op_id op = op_id y then True else Has_loop rest y)"

definition Has :: "YBOperation \<Rightarrow> Batcher \<Rightarrow> bool" where
  "Has y b = Has_loop (ops b) y"

definition Add :: "YBOperation \<Rightarrow> Batcher \<Rightarrow> Batcher" where
  "Add op b = (if state b \<noteq> kGatheringOps then b else b\<lparr>ops := ops b @ [op]\<rparr>)"

subsection \<open>CombineError\<close>

definition CloneAndPrepend :: "nat \<Rightarrow> Status \<Rightarrow> Status" where
  "CloneAndPrepend seq s = Status (code s) (Prepended seq (message s)) (ClientError s)"

definition CombineError :: "InFlightOp \<Rightarrow> Batcher \<Rightarrow> Batcher" where
  "CombineError in_flight_op b =
     (let b1 = (if ClientError (error in_flight_op) = kTablePartitionListIsStale
                then call (MarkTablePartitionListAsStale (op_id (yb_op in_flight_op))) b
                else b);
          b2 = AddError (yb_op in_flight_op) (error in_flight_op) b1
      in if TEST_combine_batcher_errors b2 then
           (if ok (combined_error b2) then
              b2\<lparr>combined_error :=
                   CloneAndPrepend (sequence_number in_flight_op) (error in_flight_op)\<rparr>
            else if \<not> IsCombined (combined_error b2)
                    \<and> code (combined_error b2) \<noteq> code (error in_flight_op) then
              b2\<lparr>combined_error := Status Combined (Text ''Multiple failures'') kNone\<rparr>
            else b2)
         else b2)"

subsection \<open>CollectOpsErrors\<close>

text \<open>The result is a \<open>std::map\<close> from partition key to status, of which the code uses
  \<open>emplace\<close> (which keeps an entry already there), \<open>empty\<close> and \<open>find\<close>: an association
  list in order of insertion.\<close>

type_synonym ErrorMap = "(PartitionKey \<times> Status) list"

definition emplace :: "PartitionKey \<Rightarrow> Status \<Rightarrow> ErrorMap \<Rightarrow> ErrorMap" where
  "emplace k s m = (case map_of m k of None \<Rightarrow> m @ [(k, s)] | Some _ \<Rightarrow> m)"

definition partition_contains_row :: "InFlightOp \<Rightarrow> RemoteTablet \<Rightarrow> bool" where
  "partition_contains_row op t =
     (case op_type (yb_op op) of
        QL_READ \<Rightarrow> ContainsKey t (partition_key op)
      | QL_WRITE \<Rightarrow> ContainsKey t (partition_key op)
      | PGSQL_READ \<Rightarrow> ContainsKey t (partition_key op)
      | PGSQL_WRITE \<Rightarrow> ContainsKey t (partition_key op)
      | REDIS_READ \<Rightarrow> ContainsKey t (partition_key op)
      | REDIS_WRITE \<Rightarrow> ContainsKey t (partition_key op))"

text \<open>The body of \<open>if (op.tablet) { ... }\<close>: the partition-key sanity check of one op.\<close>

definition check_partition :: "(nat \<Rightarrow> bool) \<Rightarrow> InFlightOp \<Rightarrow> InFlightOp" where
  "check_partition rnd op =
     (case tablet op of
        None \<Rightarrow> op
      | Some t \<Rightarrow>
          if \<not> partition_contains_row op t
             \<or> (rnd (sequence_number op) \<and> namespace_name (yb_op op) = ''yb_test'')
          then op\<lparr>error := Status InternalError
                     (RowNotInPartition (op_id (yb_op op)) (partition_key op)) kNone\<rparr>
          else op)"

fun CollectOpsErrors_loop ::
  "(nat \<Rightarrow> bool) \<Rightarrow> InFlightOp list \<Rightarrow> ErrorMap \<Rightarrow> InFlightOp list \<times> ErrorMap" where
  "CollectOpsErrors_loop rnd [] result = ([], result)"
| "CollectOpsErrors_loop rnd (op # rest) result =
     (let op1 = check_partition rnd op;
          result1 = (if \<not> ok (error op1) then emplace (partition_key op1) (error op1) result
                     else result);
          (rest1, result2) = CollectOpsErrors_loop rnd rest result1
      in (op1 # rest1, result2))"

definition CollectOpsErrors :: "Batcher \<Rightarrow> ErrorMap \<times> Batcher" where
  "CollectOpsErrors b =
     (let (queue, result) = CollectOpsErrors_loop (simulate_mismatch b) (ops_queue b) []
      in (result, b\<lparr>ops_queue := queue\<rparr>))"

subsection \<open>AllLookupsDone: removal of failed ops, sort, grouping\<close>

text \<open>The first half of the predicate given to EraseIf: an op without error takes the error
  recorded for its partition key.\<close>

definition inherit_error :: "ErrorMap \<Rightarrow> InFlightOp \<Rightarrow> InFlightOp" where
  "inherit_error errors op =
     (if ok (error op) then
        (case map_of errors (partition_key op) of
           Some e \<Rightarrow> op\<lparr>error := e\<rparr>
         | None \<Rightarrow> op)
      else op)"

text \<open>EraseIf with that predicate: the ops kept, and the Batcher after the calls of
  CombineError for the ops erased.\<close>

fun EraseIf_failed :: "ErrorMap \<Rightarrow> InFlightOp list \<Rightarrow> Batcher \<Rightarrow> InFlightOp list \<times> Batcher" where
  "EraseIf_failed errors [] b = ([], b)"
| "EraseIf_failed errors (op # rest) b =
     (let op1 = inherit_error errors op
      in if \<not> ok (error op1) then EraseIf_failed errors rest (CombineError op1 b)
         else (let (kept, b1) = EraseIf_failed errors rest b in (op1 # kept, b1)))"

text \<open>The comparator given to \<open>std::sort\<close>.\<close>

definition op_less :: "InFlightOp \<Rightarrow> InFlightOp \<Rightarrow> bool" where
  "op_less lhs rhs =
     (if get (tablet lhs) = get (tablet rhs) then
        (let lgroup = op_group (yb_op lhs); rgroup = op_group (yb_op rhs)
         in if lgroup \<noteq> rgroup then group_rank lgroup < group_rank rgroup
            else sequence_number lhs < sequence_number rhs)
      else get (tablet lhs) < get (tablet rhs))"

text \<open>\<open>std::sort\<close> leaves the order of elements that the comparator does not separate
  unspecified; the model sorts by insertion.  \<open>sort_ops_unique\<close> below shows that, the
  sequence numbers being distinct, every sorted arrangement of the queue is this one.\<close>

fun insert_op :: "InFlightOp \<Rightarrow> InFlightOp list \<Rightarrow> InFlightOp list" where
  "insert_op x [] = [x]"
| "insert_op x (y # ys) = (if op_less y x then y # insert_op x ys else x # y # ys)"

fun sort_ops :: "InFlightOp list \<Rightarrow> InFlightOp list" where
  "sort_ops [] = []"
| "sort_ops (x # xs) = insert_op x (sort_ops xs)"

text \<open>The partition-list version check of one op: \<open>Inr None\<close> when it passes, the status
  given to Abort when it does not; the tablet pointer is dereferenced only when the op
  declares a version.\<close>

definition check_partition_list_version :: "InFlightOp \<Rightarrow> failure + Status option" where
  "check_partition_list_version op =
     (case partition_list_version (yb_op op) of
        None \<Rightarrow> Inr None
      | Some v \<Rightarrow>
          (case tablet op of
             None \<Rightarrow> Inl InvalidReference
           | Some t \<Rightarrow>
               if v \<noteq> tablet_partition_list_version t then
                 Inr (Some (Status Aborted
                   (RequestedPartitionListVersion (op_id (yb_op op)) v
                      (tablet_partition_list_version t))
                   kTablePartitionListVersionDoesNotMatch))
               else Inr None))"

datatype grouping =
    Grouped "InFlightOpsGroup list" nat
  | VersionMismatch Status "InFlightOpsGroup list"
  | Crashed failure

text \<open>The loop over the sorted queue: \<open>it\<close> is the position of the first op of the list,
  \<open>group_start\<close>, \<open>current_group\<close> and \<open>current_tablet\<close> are the loop's variables, \<open>gs\<close> is
  \<open>ops_info_.groups\<close>.  It ends with the groups closed so far and the start of the last
  group, or at the first op whose version check fails.\<close>

fun group_loop ::
  "InFlightOp list \<Rightarrow> nat \<Rightarrow> nat \<Rightarrow> OpGroup \<Rightarrow> nat \<Rightarrow> InFlightOpsGroup list \<Rightarrow> grouping" where
  "group_loop [] it group_start current_group current_tablet gs = Grouped gs group_start"
| "group_loop (op # rest) it group_start current_group current_tablet gs =
     (let it_group = op_group (yb_op op); it_tablet = get (tablet op)
      in case check_partition_list_version op of
           Inl f \<Rightarrow> Crashed f
         | Inr (Some s) \<Rightarrow> VersionMismatch s gs
         | Inr None \<Rightarrow>
             if current_tablet \<noteq> it_tablet \<or> current_group \<noteq> it_group then
               group_loop rest (it + 1) it it_group it_tablet
                 (gs @ [\<lparr>group_begin = group_start, group_end = it, need_metadata = False\<rparr>])
             else group_loop rest (it + 1) group_start current_group current_tablet gs)"

subsection \<open>ExecuteOperations and CreateRpc\<close>

fun set_need_metadata :: "bool list \<Rightarrow> InFlightOpsGroup list \<Rightarrow> InFlightOpsGroup list" where
  "set_need_metadata fs [] = []"
| "set_need_metadata [] (g # gs) = g # gs"
| "set_need_metadata (f # fs) (g # gs) = g\<lparr>need_metadata := f\<rparr> # set_need_metadata fs gs"

definition CreateRpc ::
  "InFlightOp list \<Rightarrow> nat \<Rightarrow> InFlightOpsGroup \<Rightarrow> bool \<Rightarrow> bool \<Rightarrow> failure + AsyncRpc" where
  "CreateRpc queue tablet_ptr grp allow_local_calls need_consistent_read =
     (if group_begin grp = group_end grp then Inl CheckFailed
      else if length queue \<le> group_begin grp then Inl InvalidReference
      else
        (let group_kind = op_group (yb_op (queue ! group_begin grp));
             data = \<lparr>rpc_kind = WriteRpc,
                     rpc_tablet = tablet_ptr,
                     rpc_allow_local_calls_in_curr_thread = allow_local_calls,
                     rpc_need_consistent_read = need_consistent_read,
                     rpc_ops_begin = group_begin grp,
                     rpc_ops_end = group_end grp,
                     rpc_need_metadata = need_metadata grp\<rparr>
         in case group_kind of
              kWrite \<Rightarrow> Inr (data\<lparr>rpc_kind := WriteRpc\<rparr>)
            | kLeaderRead \<Rightarrow> Inr (data\<lparr>rpc_kind := ReadRpc STRONG\<rparr>)
            | kConsistentPrefixRead \<Rightarrow> Inr (data\<lparr>rpc_kind := ReadRpc CONSISTENT_PREFIX\<rparr>)))"

text \<open>The loop of ExecuteOperations that creates one RPC per group; the last group is the
  one with no group after it.\<close>

fun create_rpcs :: "Batcher \<Rightarrow> bool \<Rightarrow> InFlightOpsGroup list \<Rightarrow> failure + AsyncRpc list" where
  "create_rpcs b need_consistent_read [] = Inr []"
| "create_rpcs b need_consistent_read (grp # rest) =
     (let allow_local_calls = (allow_local_calls_in_curr_thread b \<and> rest = [])
      in if length (ops_queue b) \<le> group_begin grp then Inl InvalidReference
         else
           (case CreateRpc (ops_queue b) (get (tablet (ops_queue b ! group_begin grp)))
                   grp allow_local_calls need_consistent_read of
              Inl f \<Rightarrow> Inl f
            | Inr rpc \<Rightarrow>
                (case create_rpcs b need_consistent_read rest of
                   Inl f \<Rightarrow> Inl f
                 | Inr rpcs \<Rightarrow> Inr (rpc # rpcs))))"

definition ExecuteOperations :: "bool \<Rightarrow> Batcher \<Rightarrow> failure + Batcher" where
  "ExecuteOperations initial b =
     (let b1 = (if transaction b then
                  (call (TransactionPrepare initial) b)
                    \<lparr>groups := set_need_metadata (prepare_need_metadata b) (groups b)\<rparr>
                else b)
      in if transaction b \<and> \<not> prepare_ready b then Inr b1
         else if state b1 \<noteq> kTransactionPrepare then Inr b1
         else
           (let b2 = b1\<lparr>state := kTransactionReady\<rparr>;
                force_consistent_read1 = (force_consistent_read b2 \<or> transaction b2);
                need_consistent_read = (force_consistent_read1 \<or> length (groups b2) > 1)
            in case create_rpcs b2 need_consistent_read (groups b2) of
                 Inl f \<Rightarrow> Inl f
               | Inr rpcs \<Rightarrow>
                   Inr (b2\<lparr>outstanding_rpcs := int (length rpcs),
                          sent_rpcs := sent_rpcs b2 @ rpcs\<rparr>)))"


definition AllLookupsDone :: "Batcher \<Rightarrow> failure + Batcher" where
  "AllLookupsDone b =
     (if state b \<noteq> kResolvingTablets then Inr b
      else
        (let (errors, b1) = CollectOpsErrors b;
             b2 = b1\<lparr>state := kTransactionPrepare\<rparr>;
             b3 = (if errors \<noteq> [] then
                     (let (kept, b') = EraseIf_failed errors (ops_queue b2) b2
                      in b'\<lparr>ops_queue := kept\<rparr>)
                   else b2)
         in if ops_queue b3 = [] then FlushFinished b3
            else
              (let b4 = b3\<lparr>ops_queue := sort_ops (ops_queue b3)\<rparr>
               in case ops_queue b4 of
                    [] \<Rightarrow> Inl InvalidReference
                  | first # _ \<Rightarrow>
                      (case group_loop (ops_queue b4) 0 0 (op_group (yb_op first))
                              (get (tablet first)) (groups b4) of
                         Crashed f \<Rightarrow> Inl f
                       | VersionMismatch s gs \<Rightarrow> Abort s (b4\<lparr>groups := gs\<rparr>)
                       | Grouped gs group_start \<Rightarrow>
                           ExecuteOperations True
                             (b4\<lparr>groups := gs @ [\<lparr>group_begin = group_start,
                                                   group_end = length (ops_queue b4),
                                                   need_metadata = False\<rparr>]\<rparr>)))))"

subsection \<open>TabletLookupFinished and FlushAsync\<close>

text \<open>The op is given by its position in the queue (the code passes its address); the
  result of the lookup is a status or a tablet pointer.\<close>

definition TabletLookupFinished ::
  "nat \<Rightarrow> Status + RemoteTablet option \<Rightarrow> Batcher \<Rightarrow> failure + Batcher" where
  "TabletLookupFinished i lookup_result b =
     (if length (ops_queue b) \<le> i then Inl InvalidReference
      else
        (let op = ops_queue b ! i;
             op1 = (case lookup_result of
                      Inr t \<Rightarrow> op\<lparr>tablet := t\<rparr>
                    | Inl s \<Rightarrow> op\<lparr>error := s\<rparr>);
             b1 = b\<lparr>ops_queue := (ops_queue b)[i := op1],
                    outstanding_lookups := outstanding_lookups b - 1\<rparr>
         in if outstanding_lookups b1 = 0 then AllLookupsDone b1 else Inr b1))"

text \<open>The first loop of FlushAsync: one InFlightOp per pending op, until an op fails to
  give a partition key.  It returns the status of that op, or OK.\<close>

fun FlushAsync_queue :: "YBOperation list \<Rightarrow> Batcher \<Rightarrow> Status \<times> Batcher" where
  "FlushAsync_queue [] b = (OK, b)"
| "FlushAsync_queue (y # rest) b =
     (let in_flight_op = (new_InFlightOp y (length (ops_queue b)))\<lparr>partition_key := key_bytes y\<rparr>;
          b1 = b\<lparr>ops_queue := ops_queue b @ [in_flight_op]\<rparr>;
          status = key_status y;
          (status1, b2) =
            (if ok status \<and> IsHashPartitioning y then
               (if partition_key in_flight_op = [] then
                  (if \<not> read_only y then
                     (Status IllegalState (HashPartitionKeyIsEmptyFor (op_id y)) kNone, b1)
                   else (status, b1))
                else (status, call (SetHashCode (op_id y) (partition_key in_flight_op)) b1))
             else (status, b1))
      in if \<not> ok status1 then (status1, b2) else FlushAsync_queue rest b2)"

text \<open>The second loop of FlushAsync, over the positions of the queue: an op with a tablet
  hint completes its lookup at once, the others are handed to the meta cache, whose
  continuation is a later call of TabletLookupFinished.\<close>

fun FlushAsync_lookups :: "nat list \<Rightarrow> Batcher \<Rightarrow> failure + Batcher" where
  "FlushAsync_lookups [] b = Inr b"
| "FlushAsync_lookups (i # rest) b =
     (if length (ops_queue b) \<le> i then Inl InvalidReference
      else
        (case op_tablet (yb_op (ops_queue b ! i)) of
           Some t \<Rightarrow>
             (case TabletLookupFinished i (Inr (Some t)) b of
                Inl f \<Rightarrow> Inl f
              | Inr b1 \<Rightarrow> FlushAsync_lookups rest b1)
         | None \<Rightarrow> FlushAsync_lookups rest (call (LookupTabletByKey i) b)))"

definition FlushAsync :: "nat \<Rightarrow> bool \<Rightarrow> Batcher \<Rightarrow> failure + Batcher" where
  "FlushAsync callback is_within_transaction_retry b =
     (if state b \<noteq> kGatheringOps then Inl CheckFailed
      else
        (let operations_count = length (ops b);
             b1 = b\<lparr>state := kResolvingTablets,
                    outstanding_lookups := int operations_count,
                    flush_callback := Some callback\<rparr>;
             b2 = (if session_alive b1 then call SessionFlushStarted b1 else b1);
             b3 = (if transaction b2 \<and> \<not> is_within_transaction_retry
                   then call (ExpectOperations operations_count) b2 else b2);
             (status, b4) = FlushAsync_queue (ops b3) b3
         in if \<not> ok status then FlushFinished (b4\<lparr>combined_error := status\<rparr>)
            else FlushAsync_lookups [0..<length (ops_queue b4)] b4))"

subsection \<open>Responses: Flushed, ProcessRpcStatus, ProcessReadResponse, ProcessWriteResponse\<close>



text \<open>Writing a status to every op of the RPC, that is to the positions of its range.\<close>

definition set_error_range :: "nat \<Rightarrow> nat \<Rightarrow> Status \<Rightarrow> InFlightOp list \<Rightarrow> InFlightOp list" where
  "set_error_range first_pos end_pos s queue =
     map (\<lambda>(i, op). if first_pos \<le> i \<and> i < end_pos then op\<lparr>error := s\<rparr> else op) (enumerate 0 queue)"

definition ProcessRpcStatus :: "AsyncRpc \<Rightarrow> Status \<Rightarrow> Batcher \<Rightarrow> Batcher" where
  "ProcessRpcStatus rpc s b =
     (if state b \<noteq> kTransactionReady then b
      else if \<not> ok s then
        b\<lparr>ops_queue := set_error_range (rpc_ops_begin rpc) (rpc_ops_end rpc) s (ops_queue b)\<rparr>
      else b)"


text \<open>\<open>row_index\<close> is the int32 field of the response; \<open>row_status\<close> is what StatusFromPB
  decodes from the error of the entry.\<close>

record PerRowErrorPB =
  row_index :: "32 word"
  row_status :: Status

record WriteResponsePB =
  propagated_hybrid_time :: "nat option"
  per_row_errors :: "PerRowErrorPB list"

text \<open>\<open>rpc.ops().size()\<close>, and the row index converted to its unsigned 64-bit type for the
  comparison: a negative index becomes a number of at least 2^63.\<close>

definition rpc_ops_size :: "AsyncRpc \<Rightarrow> nat" where
  "rpc_ops_size rpc = rpc_ops_end rpc - rpc_ops_begin rpc"

definition row_index_size_t :: "PerRowErrorPB \<Rightarrow> nat" where
  "row_index_size_t err_pb = unat (scast (row_index err_pb) :: 64 word)"

fun per_row_errors_loop :: "PerRowErrorPB list \<Rightarrow> AsyncRpc \<Rightarrow> InFlightOp list \<Rightarrow> InFlightOp list" where
  "per_row_errors_loop [] rpc queue = queue"
| "per_row_errors_loop (err_pb # rest) rpc queue =
     (if rpc_ops_size rpc \<le> row_index_size_t err_pb then per_row_errors_loop rest rpc queue
      else
        (let i = rpc_ops_begin rpc + row_index_size_t err_pb
         in per_row_errors_loop rest rpc (queue[i := (queue ! i)\<lparr>error := row_status err_pb\<rparr>])))"

text \<open>An RPC whose range does not lie in the queue holds dangling iterators.\<close>

definition ProcessWriteResponse ::
  "AsyncRpc \<Rightarrow> Status \<Rightarrow> WriteResponsePB \<Rightarrow> Batcher \<Rightarrow> failure + Batcher" where
  "ProcessWriteResponse rpc s resp b =
     (if rpc_ops_end rpc < rpc_ops_begin rpc \<or> length (ops_queue b) < rpc_ops_end rpc
      then Inl InvalidReference
      else
        (let b1 = ProcessRpcStatus rpc s b;
             b2 = (case propagated_hybrid_time resp of
                     Some ht \<Rightarrow> if ok s then call (UpdateLatestObservedHybridTime ht) b1 else b1
                   | None \<Rightarrow> b1)
         in Inr (b2\<lparr>ops_queue := per_row_errors_loop (per_row_errors resp) rpc (ops_queue b2)\<rparr>)))"

definition GetAndClearPendingErrors :: "Batcher \<Rightarrow> (YBOperation \<times> Status) list \<times> Batcher" where
  "GetAndClearPendingErrors b = (error_collector b, b\<lparr>error_collector := []\<rparr>)"

subsection \<open>The constructor, and the notions the theorems are stated with\<close>

text \<open>\<open>Batcher::Batcher\<close> sets the transaction, the read point and the force-consistent-read
  flag; the other members start empty, the state is kGatheringOps.  The environment given
  here has a live session, no callback thread pool, a transaction that is ready at once,
  and the test flags off.\<close>

definition new_Batcher :: "bool \<Rightarrow> bool \<Rightarrow> bool \<Rightarrow> Batcher" where
  "new_Batcher has_transaction has_read_point force_consistent_read_arg =
     \<lparr>state = kGatheringOps, ops = [], ops_queue = [], groups = [],
      outstanding_lookups = 0, outstanding_rpcs = 0, error_collector = [],
      combined_error = OK, flush_callback = None, transaction = has_transaction,
      read_point = has_read_point, force_consistent_read = force_consistent_read_arg,
      allow_local_calls_in_curr_thread = False, deadline = 0,
      session_alive = True, callback_threadpool = False, submit_ok = False,
      prepare_ready = True, prepare_need_metadata = [], TEST_combine_batcher_errors = False,
      simulate_mismatch = (\<lambda>_. False), calls = [], callback_calls = [], pool_queue = 0,
      sent_rpcs = []\<rparr>"

text \<open>The status FlushFinished hands to the callback, from the Batcher it is entered with.\<close>

definition final_status :: "Batcher \<Rightarrow> Status" where
  "final_status b =
     (if ok (combined_error b) \<and> CountErrors b \<noteq> 0 then kGeneralErrorStatus
      else combined_error b)"

text \<open>A Batcher with the three members that CombineError writes blanked out.\<close>

definition without_errors :: "Batcher \<Rightarrow> Batcher" where
  "without_errors b = b\<lparr>calls := [], error_collector := [], combined_error := OK\<rparr>"

text \<open>The RPCs sent between two states of a Batcher.\<close>

definition new_rpcs :: "Batcher \<Rightarrow> Batcher \<Rightarrow> AsyncRpc list" where
  "new_rpcs b b' = drop (length (sent_rpcs b)) (sent_rpcs b')"

subsection \<open>Concrete operations, tablets and statuses for the examples\<close>

definition tablet_A :: RemoteTablet where
  "tablet_A = \<lparr>address = 16, partition = {''k1'', ''k2''}, tablet_partition_list_version = 8\<rparr>"

definition write_op :: "nat \<Rightarrow> PartitionKey \<Rightarrow> YBOperation" where
  "write_op i k =
     \<lparr>op_id = i, op_type = QL_WRITE, op_group = kWrite, key_status = OK, key_bytes = k,
      IsHashPartitioning = True, read_only = False, op_tablet = None,
      partition_list_version = None, namespace_name = ''db''\<rparr>"

definition read_op :: "nat \<Rightarrow> PartitionKey \<Rightarrow> YBOperation" where
  "read_op i k =
     \<lparr>op_id = i, op_type = QL_READ, op_group = kLeaderRead, key_status = OK, key_bytes = k,
      IsHashPartitioning = True, read_only = True, op_tablet = None,
      partition_list_version = None, namespace_name = ''db''\<rparr>"

definition not_found :: Status where
  "not_found = Status (OtherCode 1) (Text ''tablet not found'') kNone"

definition batch_aborted :: Status where
  "batch_aborted = Status Aborted (Text ''Batch aborted'') kNone"

definition timed_out :: Status where
  "timed_out = Status (OtherCode 2) (Text ''timed out'') kNone"

text \<open>A Batcher whose client has a callback thread pool that accepts every task.\<close>

definition pool_Batcher :: Batcher where
  "pool_Batcher = (new_Batcher False False False)\<lparr>callback_threadpool := True, submit_ok := True\<rparr>"

text \<open>A Batcher holding one write, and that Batcher at the moment its only RPC has
  answered with an error recorded in the collector.\<close>

definition one_write :: Batcher where
  "one_write = Add (write_op 1 ''k1'') (new_Batcher False False False)"

definition failed_write :: Batcher where
  "failed_write =
     (AddError (write_op 1 ''k1'') not_found one_write)
       \<lparr>state := kTransactionReady, flush_callback := Some 7\<rparr>"

definition pool_one_write :: Batcher where
  "pool_one_write = Add (write_op 1 ''k1'') pool_Batcher"

text \<open>The status the callback gets from FlushFinished when Abort is entered with status
  \<open>s\<close>: Abort records \<open>s\<close> for every op of the queue, so an ok \<open>s\<close> is replaced by the generic
  error as soon as the collector is not empty.\<close>

definition abort_status :: "Status \<Rightarrow> Batcher \<Rightarrow> Status" where
  "abort_status s b =
     (if ok s \<and> (error_collector b \<noteq> [] \<or> ops_queue b \<noteq> []) then kGeneralErrorStatus else s)"

text \<open>An in-flight op whose tablet has been resolved, and a Batcher as AllLookupsDone
  leaves it for ExecuteOperations: a write and a read of the same tablet, in two groups.\<close>

definition resolved_op :: "YBOperation \<Rightarrow> nat \<Rightarrow> RemoteTablet \<Rightarrow> InFlightOp" where
  "resolved_op y seq t =
     (new_InFlightOp y seq)\<lparr>partition_key := key_bytes y, tablet := Some t\<rparr>"

definition two_groups :: Batcher where
  "two_groups =
     (new_Batcher False False False)
       \<lparr>state := kTransactionPrepare,
        ops := [read_op 0 ''k1'', write_op 1 ''k1''],
        ops_queue := [resolved_op (write_op 1 ''k1'') 1 tablet_A,
                      resolved_op (read_op 0 ''k1'') 0 tablet_A],
        groups := [\<lparr>group_begin = 0, group_end = 1, need_metadata = False\<rparr>,
                   \<lparr>group_begin = 1, group_end = 2, need_metadata = False\<rparr>],
        flush_callback := Some 7\<rparr>"

text \<open>For ProcessWriteResponse: whether the row index of an entry passes the range check;
  the entries of a response that pass it and point at position \<open>i\<close> of the queue; and an op
  after these entries have been applied in order (the last one stays).\<close>

definition in_range :: "AsyncRpc \<Rightarrow> PerRowErrorPB \<Rightarrow> bool" where
  "in_range rpc e = (row_index_size_t e < rpc_ops_size rpc)"

definition row_errors_at :: "AsyncRpc \<Rightarrow> PerRowErrorPB list \<Rightarrow> nat \<Rightarrow> PerRowErrorPB list" where
  "row_errors_at rpc errs i =
     filter (\<lambda>e. in_range rpc e \<and> rpc_ops_begin rpc + row_index_size_t e = i) errs"

definition apply_row_errors :: "PerRowErrorPB list \<Rightarrow> InFlightOp \<Rightarrow> InFlightOp" where
  "apply_row_errors es op = (if es = [] then op else op\<lparr>error := row_status (last es)\<rparr>)"


text \<open>Three writes sent in one RPC, and a response to it that is ok at the RPC level and
  carries a per-row error for row 1, one for row 5 and one for row -1.\<close>

definition three_sent :: Batcher where
  "three_sent =
     (new_Batcher False False False)
       \<lparr>state := kTransactionReady,
        ops := [write_op 0 ''k1'', write_op 1 ''k1'', write_op 2 ''k2''],
        ops_queue := [resolved_op (write_op 0 ''k1'') 0 tablet_A,
                      resolved_op (write_op 1 ''k1'') 1 tablet_A,
                      resolved_op (write_op 2 ''k2'') 2 tablet_A],
        groups := [\<lparr>group_begin = 0, group_end = 3, need_metadata = False\<rparr>],
        outstanding_rpcs := 1,
        flush_callback := Some 7\<rparr>"

definition write_rpc :: AsyncRpc where
  "write_rpc =
     \<lparr>rpc_kind = WriteRpc, rpc_tablet = 16, rpc_allow_local_calls_in_curr_thread = False,
      rpc_need_consistent_read = False, rpc_ops_begin = 0, rpc_ops_end = 3,
      rpc_need_metadata = False\<rparr>"

definition duplicate_key :: Status where
  "duplicate_key = Status (OtherCode 3) (Text ''duplicate key'') kNone"

definition row_error_response :: WriteResponsePB where
  "row_error_response =
     \<lparr>propagated_hybrid_time = None,
      per_row_errors = [\<lparr>row_index = 1, row_status = duplicate_key\<rparr>,
                        \<lparr>row_index = 5, row_status = not_found\<rparr>,
                        \<lparr>row_index = - 1, row_status = timed_out\<rparr>]\<rparr>"


definition same_group :: "InFlightOp \<Rightarrow> InFlightOp \<Rightarrow> bool" where
  "same_group x y =
     (get (tablet x) = get (tablet y) \<and> op_group (yb_op x) = op_group (yb_op y))"

text \<open>The stages of AllLookupsDone, named: the queue after the partition-key check of
  CollectOpsErrors, the map of errors it returns, the queue after every op has taken the
  error of its key, and the two parts EraseIf splits that queue into.\<close>

definition record_error :: "InFlightOp \<Rightarrow> ErrorMap \<Rightarrow> ErrorMap" where
  "record_error op m = (if \<not> ok (error op) then emplace (partition_key op) (error op) m else m)"

definition checked_queue :: "Batcher \<Rightarrow> InFlightOp list" where
  "checked_queue b = map (check_partition (simulate_mismatch b)) (ops_queue b)"

definition lookup_errors :: "Batcher \<Rightarrow> ErrorMap" where
  "lookup_errors b = fold record_error (checked_queue b) []"

definition judged_queue :: "Batcher \<Rightarrow> InFlightOp list" where
  "judged_queue b = map (inherit_error (lookup_errors b)) (checked_queue b)"

definition surviving_ops :: "Batcher \<Rightarrow> InFlightOp list" where
  "surviving_ops b = filter (\<lambda>op. ok (error op)) (judged_queue b)"

definition removed_ops :: "Batcher \<Rightarrow> InFlightOp list" where
  "removed_ops b = filter (\<lambda>op. \<not> ok (error op)) (judged_queue b)"

text \<open>An op that declares a partition list version other than that of its tablet.\<close>

definition version_mismatch :: "InFlightOp \<Rightarrow> bool" where
  "version_mismatch op =
     (case partition_list_version (yb_op op) of
        None \<Rightarrow> False
      | Some v \<Rightarrow>
          (case tablet op of
             None \<Rightarrow> False
           | Some t \<Rightarrow> v \<noteq> tablet_partition_list_version t))"

text \<open>A group over a queue: not empty, inside the queue, all its ops in the same group as
  its first.\<close>

definition group_ok :: "InFlightOp list \<Rightarrow> nat \<Rightarrow> nat \<Rightarrow> bool" where
  "group_ok q first_pos end_pos =
     (first_pos < end_pos \<and> end_pos \<le> length q
      \<and> (\<forall>k. first_pos \<le> k \<and> k < end_pos \<longrightarrow> same_group (q ! k) (q ! first_pos)))"

text \<open>The Batcher after the failed ops have been removed and handed to CombineError, and
  after the sort.\<close>

definition after_removal :: "Batcher \<Rightarrow> Batcher" where
  "after_removal b =
     (fold CombineError (removed_ops b) b)
       \<lparr>state := kTransactionPrepare, ops_queue := surviving_ops b\<rparr>"

definition after_sort :: "Batcher \<Rightarrow> Batcher" where
  "after_sort b = (after_removal b)\<lparr>ops_queue := sort_ops (surviving_ops b)\<rparr>"

text \<open>A Batcher with one write that declares partition list version 7, flushed, its lookup
  still outstanding; \<open>tablet_A\<close> has version 8.\<close>

definition versioned_write :: Batcher where
  "versioned_write =
     Add ((write_op 1 ''k1'')\<lparr>partition_list_version := Some 7\<rparr>) (new_Batcher False False False)"

text \<open>Three writes, the first two with the same partition key; the flush with the lookup
  of the first failed and that of the second done; and the Batcher that the last lookup
  continuation hands to AllLookupsDone.\<close>

definition three_writes :: Batcher where
  "three_writes =
     Add (write_op 2 ''k2'') (Add (write_op 1 ''k1'') (Add (write_op 0 ''k1'')
       (new_Batcher False False False)))"

definition lookups_pending :: Batcher where
  "lookups_pending =
     projr (and_then (and_then (FlushAsync 7 False three_writes)
       (TabletLookupFinished 0 (Inl not_found))) (TabletLookupFinished 1 (Inr (Some tablet_A))))"

definition contagion_batch :: Batcher where
  "contagion_batch =
     lookups_pending
       \<lparr>ops_queue := (ops_queue lookups_pending)
           [2 := (ops_queue lookups_pending ! 2)\<lparr>tablet := Some tablet_A\<rparr>],
        outstanding_lookups := outstanding_lookups lookups_pending - 1\<rparr>"

text \<open>A flush of one write that is waiting for its lookup, with and without a callback
  thread pool: the callback is stored and the queue holds the op.\<close>

definition pool_flushing :: Batcher where
  "pool_flushing = projr (FlushAsync 7 False pool_one_write)"

definition inline_flushing :: Batcher where
  "inline_flushing = projr (FlushAsync 7 False one_write)"














section \<open>Basic facts\<close>

lemma and_then_Inr [simp]: "and_then (Inr x) f = f x"
  by (simp add: and_then_def)

lemma and_then_Inl [simp]: "and_then (Inl e) f = Inl e"
  by (simp add: and_then_def)

lemma AddError_all_eq:
  "AddError_all q s b = b\<lparr>error_collector := error_collector b @ map (\<lambda>op. (yb_op op, s)) q\<rparr>"
  by (induction q arbitrary: b) (simp_all add: AddError_def)

lemma without_errors_CombineError: "without_errors (CombineError op b) = without_errors b"
  by (simp add: without_errors_def CombineError_def Let_def call_def AddError_def)

lemma without_errors_fold_CombineError:
  "without_errors (fold CombineError xs b) = without_errors b"
  by (induction xs arbitrary: b) (simp_all add: without_errors_CombineError)

lemma EraseIf_failed_eq:
  "EraseIf_failed errs q b =
     (filter (\<lambda>op. ok (error op)) (map (inherit_error errs) q),
      fold CombineError (filter (\<lambda>op. \<not> ok (error op)) (map (inherit_error errs) q)) b)"
  by (induction q arbitrary: b) (simp_all add: Let_def)

text \<open>FlushFinished, followed by the pool running the task if one was submitted, calls the
  stored callback once with \<open>final_status\<close> and clears the slot.\<close>

lemma FlushFinished_delivers:
  assumes "flush_callback b = Some cb" and "pool_queue b = 0"
  shows "\<exists>b'. and_then (FlushFinished b) ThreadPoolRun = Inr b'
           \<and> callback_calls b' = callback_calls b @ [(cb, final_status b)]
           \<and> flush_callback b' = None
           \<and> pool_queue b' = 0
           \<and> combined_error b' = final_status b
           \<and> state b' = (if state b = kAborted then kAborted else kComplete)
           \<and> error_collector b' = error_collector b
           \<and> ops_queue b' = ops_queue b
           \<and> sent_rpcs b' = sent_rpcs b"
  using assms
  by (simp add: FlushFinished_def RunCallback_def Run_def ThreadPoolRun_def Let_def call_def
        CountErrors_def final_status_def)

section \<open>The pending list (C10)\<close>

lemma Run_ops: "Run b = Inr b' \<Longrightarrow> ops b' = ops b"
  by (auto simp: Run_def split: option.splits)

lemma RunCallback_ops: "RunCallback b = Inr b' \<Longrightarrow> ops b' = ops b"
  by (auto simp: RunCallback_def call_def dest!: Run_ops split: if_splits)

lemma FlushFinished_ops: "FlushFinished b = Inr b' \<Longrightarrow> ops b' = ops b"
  by (auto simp: FlushFinished_def Let_def call_def dest!: RunCallback_ops split: if_splits)

lemma Abort_ops: "Abort s b = Inr b' \<Longrightarrow> ops b' = ops b"
  by (auto simp: Abort_def AddError_all_eq dest!: FlushFinished_ops)

lemma ops_without_errors: "ops (without_errors b) = ops b"
  by (simp add: without_errors_def)

lemma ops_fold_CombineError: "ops (fold CombineError xs b) = ops b"
  using without_errors_fold_CombineError [of xs b] ops_without_errors by metis

lemma ExecuteOperations_ops: "ExecuteOperations initial b = Inr b' \<Longrightarrow> ops b' = ops b"
  by (auto simp: ExecuteOperations_def Let_def call_def split: if_splits sum.splits)

lemma AllLookupsDone_ops: "AllLookupsDone b = Inr b' \<Longrightarrow> ops b' = ops b"
  by (auto simp: AllLookupsDone_def Let_def CollectOpsErrors_def EraseIf_failed_eq
        ops_fold_CombineError
      dest!: FlushFinished_ops Abort_ops ExecuteOperations_ops
      split: if_splits prod.splits list.splits grouping.splits)

lemma TabletLookupFinished_ops: "TabletLookupFinished i r b = Inr b' \<Longrightarrow> ops b' = ops b"
  by (auto simp: TabletLookupFinished_def Let_def dest!: AllLookupsDone_ops split: if_splits)

lemma FlushAsync_queue_ops: "ops (snd (FlushAsync_queue ys b)) = ops b"
  by (induction ys arbitrary: b) (simp_all add: Let_def call_def split: prod.splits)

lemma FlushAsync_lookups_ops: "FlushAsync_lookups is b = Inr b' \<Longrightarrow> ops b' = ops b"
proof (induction "is" arbitrary: b)
  case Nil
  then show ?case by simp
next
  case (Cons i rest)
  then show ?case
    by (auto simp: call_def dest!: TabletLookupFinished_ops
        split: if_splits option.splits sum.splits)
qed

lemma FlushAsync_ops:
  assumes "FlushAsync cb r b = Inr b'"
  shows "ops b' = ops b"
proof -
  define b3 where
    "b3 = (let b1 = b\<lparr>state := kResolvingTablets,
                      outstanding_lookups := int (length (ops b)),
                      flush_callback := Some cb\<rparr>;
               b2 = (if session_alive b1 then call SessionFlushStarted b1 else b1)
           in (if transaction b2 \<and> \<not> r
               then call (ExpectOperations (length (ops b))) b2 else b2))"
  have o3: "ops b3 = ops b"
    by (simp add: b3_def Let_def call_def)
  obtain st b4 where q: "FlushAsync_queue (ops b3) b3 = (st, b4)"
    by fastforce
  have o4: "ops b4 = ops b"
    using FlushAsync_queue_ops [of "ops b3" b3] q o3 by simp
  from assms q have "FlushFinished (b4\<lparr>combined_error := st\<rparr>) = Inr b' \<or>
        FlushAsync_lookups [0..<length (ops_queue b4)] b4 = Inr b'"
    by (auto simp: FlushAsync_def b3_def Let_def split: if_splits)
  then show ?thesis
    using o4 by (auto dest!: FlushFinished_ops FlushAsync_lookups_ops)
qed

text \<open>
  C10.  HasPendingOperations is true exactly when the pending list is not empty; Add
  appends to the list in the state kGatheringOps and does nothing in any other state;
  FlushAsync, Abort and FlushFinished leave the list as it is, so it stays non-empty after
  the flush has completed; CountBufferedOperations is 0 in every state other than
  kGatheringOps.
\<close>

theorem pending_list_never_cleared:
  "HasPendingOperations b = (ops b \<noteq> [])
   \<and> (state b = kGatheringOps \<longrightarrow> ops (Add op b) = ops b @ [op])
   \<and> (state b \<noteq> kGatheringOps \<longrightarrow> Add op b = b)
   \<and> (FlushAsync cb r b = Inr b1 \<longrightarrow> ops b1 = ops b)
   \<and> (Abort s b = Inr b2 \<longrightarrow> ops b2 = ops b)
   \<and> (FlushFinished b = Inr b3 \<longrightarrow> ops b3 = ops b)
   \<and> (state b \<noteq> kGatheringOps \<longrightarrow> CountBufferedOperations b = 0)"
  using FlushAsync_ops [of cb r b b1] Abort_ops [of s b b2] FlushFinished_ops [of b b3]
  by (simp add: HasPendingOperations_def Add_def CountBufferedOperations_def)

theorem pending_list_never_cleared_witness:
  "state one_write = kGatheringOps
   \<and> map_sum id ops (FlushAsync 7 False one_write) = Inr [write_op 1 ''k1'']
   \<and> map_sum id state (and_then (FlushAsync 7 False one_write)
        (TabletLookupFinished 0 (Inl not_found))) = Inr kComplete
   \<and> map_sum id HasPendingOperations (and_then (FlushAsync 7 False one_write)
        (TabletLookupFinished 0 (Inl not_found))) = Inr True
   \<and> map_sum id CountBufferedOperations (and_then (FlushAsync 7 False one_write)
        (TabletLookupFinished 0 (Inl not_found))) = Inr 0"
proof -
  have g: "state one_write = kGatheringOps"
    by code_simp
  have o: "ops one_write = [write_op 1 ''k1'']"
    by code_simp
  have "\<not> isl (FlushAsync 7 False one_write)"
    by code_simp
  then obtain b1 where f: "FlushAsync 7 False one_write = Inr b1"
    by (cases "FlushAsync 7 False one_write") auto
  have o1: "ops b1 = ops one_write"
    using pending_list_never_cleared [of one_write "read_op 2 ''k2''" 7 False b1 OK b1 b1] f
    by simp
  have c: "map_sum id state (and_then (FlushAsync 7 False one_write)
             (TabletLookupFinished 0 (Inl not_found))) = Inr kComplete"
    by code_simp
  then obtain b2 where t: "TabletLookupFinished 0 (Inl not_found) b1 = Inr b2"
    and s2: "state b2 = kComplete"
    using f by (cases "TabletLookupFinished 0 (Inl not_found) b1") auto
  have o2: "ops b2 = ops b1"
    using t by (rule TabletLookupFinished_ops)
  have "HasPendingOperations b2" "CountBufferedOperations b2 = 0"
    using pending_list_never_cleared [of b2 "read_op 2 ''k2''" 7 False b2 OK b2 b2] s2 o2 o1 o
    by simp_all
  then show ?thesis
    using g f t o1 o c by simp
qed

section \<open>The status handed to the callback (C8)\<close>

text \<open>
  C8.  FlushFinished, entered with the callback stored, hands the callback the generic IO
  error "Errors occurred while reaching out to the tablet servers" when the aggregated
  status is ok and the error collector holds at least one error, and the aggregated status
  as it is in every other case, in particular when it is already an error.  The callback
  runs inline, or as the task the callback thread pool was given.
\<close>

theorem flush_finished_status:
  assumes "flush_callback b = Some cb" and "pool_queue b = 0"
  shows "\<exists>b'. and_then (FlushFinished b) ThreadPoolRun = Inr b'
           \<and> flush_callback b' = None
           \<and> callback_calls b' = callback_calls b @
                [(cb, if ok (combined_error b) \<and> CountErrors b \<noteq> 0
                      then Status IOError
                             (Text ''Errors occurred while reaching out to the tablet servers'')
                             kNone
                      else combined_error b)]"
  using FlushFinished_delivers [OF assms]
  by (auto simp: final_status_def kGeneralErrorStatus_def kErrorReachingOutToTServersMsg_def)

theorem flush_finished_status_witness:
  "flush_callback failed_write = Some 7 \<and> pool_queue failed_write = 0
   \<and> combined_error failed_write = OK \<and> CountErrors failed_write = 1
   \<and> map_sum id callback_calls (and_then (FlushFinished failed_write) ThreadPoolRun)
       = Inr [(7, Status IOError
                    (Text ''Errors occurred while reaching out to the tablet servers'') kNone)]"
proof -
  have h: "flush_callback failed_write = Some 7" "pool_queue failed_write = 0"
    and e: "combined_error failed_write = OK" "CountErrors failed_write = 1"
      "callback_calls failed_write = []"
    by code_simp+
  have k: "ok OK"
    by code_simp
  show ?thesis
    using flush_finished_status [OF h] h e k by auto
qed

section \<open>A flush of no operations (C1)\<close>

text \<open>
  C1, as stated, fails.  FlushAsync on a new Batcher with no operations stores the callback
  and moves to kResolvingTablets; no lookup is started, so neither AllLookupsDone nor
  FlushFinished runs, and the callback has not been invoked, not even once the thread
  pool has run whatever it was given.
\<close>

theorem empty_flush_never_calls_back:
  "map_sum id callback_calls
     (and_then (FlushAsync 7 False (new_Batcher False False False)) ThreadPoolRun) = Inr []
   \<and> map_sum id flush_callback
     (and_then (FlushAsync 7 False (new_Batcher False False False)) ThreadPoolRun) = Inr (Some 7)
   \<and> map_sum id state
     (and_then (FlushAsync 7 False (new_Batcher False False False)) ThreadPoolRun)
       = Inr kResolvingTablets"
  by code_simp

text \<open>
  C1, amended.  FlushAsync on a Batcher in kGatheringOps with no submitted operation
  changes exactly this: the state becomes kResolvingTablets, the counter of outstanding
  lookups 0, the callback is stored, the session (if alive) is told that the flush
  started and the transaction (if attached, outside a retry) that it is to expect 0
  operations.  No lookup is started, the callback is not invoked and no task is given
  to the thread pool, no RPC is sent, and the error collector is left as it was, empty for
  a new Batcher.
\<close>

theorem empty_flush_stores_callback:
  assumes "state b = kGatheringOps" and "ops b = []" and "ops_queue b = []"
  shows "\<exists>b'. FlushAsync cb r b = Inr b'
           \<and> b' = b\<lparr>state := kResolvingTablets,
                     outstanding_lookups := 0,
                     flush_callback := Some cb,
                     calls := calls b
                       @ (if session_alive b then [SessionFlushStarted] else [])
                       @ (if transaction b \<and> \<not> r then [ExpectOperations 0] else [])\<rparr>
           \<and> state b' = kResolvingTablets
           \<and> outstanding_lookups b' = 0
           \<and> flush_callback b' = Some cb
           \<and> (\<forall>i. LookupTabletByKey i \<in> set (calls b') \<longrightarrow> LookupTabletByKey i \<in> set (calls b))
           \<and> callback_calls b' = callback_calls b
           \<and> pool_queue b' = pool_queue b
           \<and> error_collector b' = error_collector b
           \<and> CountErrors b' = CountErrors b
           \<and> sent_rpcs b' = sent_rpcs b"
proof -
  let ?b = "b\<lparr>state := kResolvingTablets,
                     outstanding_lookups := 0,
                     flush_callback := Some cb,
                     calls := calls b
                       @ (if session_alive b then [SessionFlushStarted] else [])
                       @ (if transaction b \<and> \<not> r then [ExpectOperations 0] else [])\<rparr>"
  have "FlushAsync cb r b = Inr ?b"
    using assms by (cases b) (simp add: FlushAsync_def Let_def call_def OK_def ok_def)
  then show ?thesis
    by (simp add: CountErrors_def)
qed

theorem empty_flush_stores_callback_witness:
  "state (new_Batcher False False False) = kGatheringOps
   \<and> ops (new_Batcher False False False) = []
   \<and> ops_queue (new_Batcher False False False) = []
   \<and> error_collector (new_Batcher False False False) = []
   \<and> (\<exists>b'. FlushAsync 7 False (new_Batcher False False False) = Inr b'
           \<and> state b' = kResolvingTablets
           \<and> flush_callback b' = Some 7
           \<and> calls b' = [SessionFlushStarted]
           \<and> callback_calls b' = []
           \<and> error_collector b' = [])"
proof -
  have h: "state (new_Batcher False False False) = kGatheringOps"
    "ops (new_Batcher False False False) = []"
    "ops_queue (new_Batcher False False False) = []"
    and e: "error_collector (new_Batcher False False False) = []"
      "callback_calls (new_Batcher False False False) = []"
      "calls (new_Batcher False False False) = []"
      "session_alive (new_Batcher False False False)"
      "\<not> transaction (new_Batcher False False False)"
    by code_simp+
  obtain b' where b': "FlushAsync 7 False (new_Batcher False False False) = Inr b'"
    "b' = (new_Batcher False False False)\<lparr>state := kResolvingTablets,
                     outstanding_lookups := 0,
                     flush_callback := Some 7,
                     calls := calls (new_Batcher False False False)
                       @ (if session_alive (new_Batcher False False False)
                          then [SessionFlushStarted] else [])
                       @ (if transaction (new_Batcher False False False) \<and> \<not> False
                          then [ExpectOperations 0] else [])\<rparr>"
    using empty_flush_stores_callback [OF h, of 7 False] by blast
  have "state b' = kResolvingTablets" "flush_callback b' = Some 7"
    "calls b' = [SessionFlushStarted]" "callback_calls b' = []" "error_collector b' = []"
    using e by (simp_all add: b'(2))
  then show ?thesis
    using h e(1) b'(1) by blast
qed

section \<open>Abort is not guarded (C2)\<close>

text \<open>
  C2, as stated, fails.  With a callback thread pool, two calls of Abort before the pool
  runs its first task make the single invocation of the callback carry the second status,
  and the second task calls the empty functor.  After a flush has finished in state
  kComplete, Abort moves the Batcher to kAborted; without a thread pool it calls the empty
  functor at once.
\<close>

theorem second_abort_overwrites_status:
  "map_sum id callback_calls
     (and_then (and_then (and_then (FlushAsync 7 False pool_one_write) (Abort timed_out))
        (Abort batch_aborted)) ThreadPoolRun) = Inr [(7, batch_aborted)]
   \<and> map_sum id state (and_then (and_then (and_then (and_then
        (FlushAsync 7 False pool_one_write) (Abort timed_out)) (Abort batch_aborted))
        ThreadPoolRun) ThreadPoolRun) = Inl BadFunctionCall
   \<and> map_sum id state (and_then (and_then (FlushAsync 7 False pool_one_write)
        (TabletLookupFinished 0 (Inl not_found))) ThreadPoolRun) = Inr kComplete
   \<and> map_sum id state (and_then (and_then (and_then (FlushAsync 7 False pool_one_write)
        (TabletLookupFinished 0 (Inl not_found))) ThreadPoolRun) (Abort batch_aborted))
       = Inr kAborted
   \<and> map_sum id state (and_then (and_then (FlushAsync 7 False one_write)
        (TabletLookupFinished 0 (Inl not_found))) (Abort batch_aborted)) = Inl BadFunctionCall"
  by code_simp

lemma Abort_delivers:
  assumes "flush_callback b = Some cb" and "pool_queue b = 0"
  shows "\<exists>b1. and_then (Abort s1 b) ThreadPoolRun = Inr b1
           \<and> state b1 = kAborted
           \<and> flush_callback b1 = None
           \<and> pool_queue b1 = 0
           \<and> combined_error b1 = abort_status s1 b
           \<and> callback_calls b1 = callback_calls b @ [(cb, abort_status s1 b)]
           \<and> callback_threadpool b1 = callback_threadpool b
           \<and> submit_ok b1 = submit_ok b
           \<and> ops_queue b1 = ops_queue b
           \<and> sent_rpcs b1 = sent_rpcs b
           \<and> error_collector b1 = error_collector b @ map (\<lambda>op. (yb_op op, s1)) (ops_queue b)"
proof -
  let ?b = "(AddError_all (ops_queue b) s1 b)\<lparr>combined_error := s1, state := kAborted\<rparr>"
  have 1: "flush_callback ?b = Some cb" "pool_queue ?b = 0"
    using assms by (simp_all add: AddError_all_eq)
  have 2: "final_status ?b = abort_status s1 b"
    by (auto simp: final_status_def abort_status_def AddError_all_eq CountErrors_def)
  have 3: "callback_threadpool (projr (and_then (FlushFinished ?b) ThreadPoolRun)) = callback_threadpool b
     \<and> submit_ok (projr (and_then (FlushFinished ?b) ThreadPoolRun)) = submit_ok b"
    using 1 by (simp add: FlushFinished_def RunCallback_def Run_def ThreadPoolRun_def Let_def call_def
        AddError_all_eq)
  show ?thesis
    using FlushFinished_delivers [OF 1] 2 3 by (auto simp: Abort_def AddError_all_eq)
qed

lemma Abort_empty_slot:
  assumes "flush_callback b = None" and "pool_queue b = 0"
  shows "if callback_threadpool b \<and> submit_ok b
         then (\<exists>b2. Abort s2 b = Inr b2
                 \<and> state b2 = kAborted
                 \<and> combined_error b2 = abort_status s2 b
                 \<and> error_collector b2 = error_collector b @ map (\<lambda>op. (yb_op op, s2)) (ops_queue b)
                 \<and> callback_calls b2 = callback_calls b
                 \<and> ThreadPoolRun b2 = Inl BadFunctionCall)
         else Abort s2 b = Inl BadFunctionCall"
  using assms
  by (auto simp: Abort_def AddError_all_eq FlushFinished_def RunCallback_def Run_def ThreadPoolRun_def
      Let_def call_def CountErrors_def abort_status_def)

text \<open>What one call of Abort does, whatever the state: it enters FlushFinished with its
  status recorded for every op of the queue and written to the aggregated status, in
  the state kAborted.  With a thread pool that accepts the task, it returns with the task
  queued and the callback slot untouched.\<close>

lemma Abort_enters_FlushFinished:
  "Abort s b =
     FlushFinished (b\<lparr>error_collector :=
                         error_collector b @ map (\<lambda>op. (yb_op op, s)) (ops_queue b),
                       combined_error := s, state := kAborted\<rparr>)"
  by (simp add: Abort_def AddError_all_eq)

lemma Abort_submits:
  assumes "callback_threadpool b" and "submit_ok b"
  shows "\<exists>b1. Abort s b = Inr b1
           \<and> state b1 = kAborted
           \<and> combined_error b1 = abort_status s b
           \<and> error_collector b1 = error_collector b @ map (\<lambda>op. (yb_op op, s)) (ops_queue b)
           \<and> ops_queue b1 = ops_queue b
           \<and> flush_callback b1 = flush_callback b
           \<and> callback_calls b1 = callback_calls b
           \<and> pool_queue b1 = pool_queue b + 1
           \<and> callback_threadpool b1 \<and> submit_ok b1"
  using assms
  by (auto simp: Abort_def AddError_all_eq FlushFinished_def RunCallback_def Let_def call_def
      CountErrors_def abort_status_def)

lemma abort_status_after_Abort:
  assumes "error_collector b1 = error_collector b @ map (\<lambda>op. (yb_op op, s1)) (ops_queue b)"
    and "ops_queue b1 = ops_queue b"
  shows "abort_status s2 b1 = abort_status s2 b"
  using assms by (auto simp: abort_status_def)

lemma ThreadPoolRun_delivers:
  assumes "flush_callback b = Some cb" and "pool_queue b = Suc n"
  shows "\<exists>b'. ThreadPoolRun b = Inr b'
           \<and> callback_calls b' = callback_calls b @ [(cb, combined_error b)]
           \<and> flush_callback b' = None
           \<and> pool_queue b' = n"
  using assms by (simp add: ThreadPoolRun_def Run_def)

lemma ThreadPoolRun_empty_slot:
  assumes "flush_callback b = None" and "pool_queue b = Suc n"
  shows "ThreadPoolRun b = Inl BadFunctionCall"
  using assms by (simp add: ThreadPoolRun_def Run_def)

text \<open>
  C2, amended.  Abort has no guard: every call, in every state, records its status for
  every op of the queue, writes it to the aggregated status, sets the state kAborted
  and enters FlushFinished.  On a Batcher that holds its callback:

  \<^item> when the callback runs before a second Abort comes (inline, or the thread pool runs
    its task first), the first Abort invokes the callback exactly once, with its status
    if that is an error (with the generic IO error if it is ok and an error is recorded),
    and clears the slot; the second Abort is then not a no-op: it records and overwrites
    as said and runs the callback step on the cleared slot, which calls the empty
    functor, inline at once or in the task given to the thread pool; the user's callback
    is not invoked again;

  \<^item> when both Aborts come before the thread pool runs its first task, the single
    invocation carries the status of the second Abort, and the second task calls the
    empty functor.
\<close>

theorem abort_not_idempotent:
  assumes "flush_callback b = Some cb" and "pool_queue b = 0"
  shows "Abort s1 b =
           FlushFinished (b\<lparr>error_collector :=
                               error_collector b @ map (\<lambda>op. (yb_op op, s1)) (ops_queue b),
                             combined_error := s1, state := kAborted\<rparr>)
    \<and> (\<exists>b1. and_then (Abort s1 b) ThreadPoolRun = Inr b1
           \<and> state b1 = kAborted
           \<and> flush_callback b1 = None
           \<and> combined_error b1 = abort_status s1 b
           \<and> callback_calls b1 = callback_calls b @ [(cb, abort_status s1 b)]
           \<and> error_collector b1 = error_collector b @ map (\<lambda>op. (yb_op op, s1)) (ops_queue b)
           \<and> Abort s2 b1 =
                FlushFinished (b1\<lparr>error_collector :=
                                     error_collector b1 @ map (\<lambda>op. (yb_op op, s2)) (ops_queue b1),
                                   combined_error := s2, state := kAborted\<rparr>)
           \<and> (if callback_threadpool b \<and> submit_ok b
               then (\<exists>b2. Abort s2 b1 = Inr b2
                       \<and> state b2 = kAborted
                       \<and> combined_error b2 = abort_status s2 b1
                       \<and> error_collector b2 =
                           error_collector b @ map (\<lambda>op. (yb_op op, s1)) (ops_queue b)
                             @ map (\<lambda>op. (yb_op op, s2)) (ops_queue b)
                       \<and> callback_calls b2 = callback_calls b1
                       \<and> ThreadPoolRun b2 = Inl BadFunctionCall)
               else Abort s2 b1 = Inl BadFunctionCall))
    \<and> (callback_threadpool b \<and> submit_ok b \<longrightarrow>
         (\<exists>b2 b3. and_then (Abort s1 b) (Abort s2) = Inr b2
            \<and> state b2 = kAborted
            \<and> flush_callback b2 = Some cb
            \<and> callback_calls b2 = callback_calls b
            \<and> combined_error b2 = abort_status s2 b
            \<and> error_collector b2 =
                 error_collector b @ map (\<lambda>op. (yb_op op, s1)) (ops_queue b)
                   @ map (\<lambda>op. (yb_op op, s2)) (ops_queue b)
            \<and> ThreadPoolRun b2 = Inr b3
            \<and> callback_calls b3 = callback_calls b @ [(cb, abort_status s2 b)]
            \<and> flush_callback b3 = None
            \<and> ThreadPoolRun b3 = Inl BadFunctionCall))"
proof -
  obtain b1 where 1: "and_then (Abort s1 b) ThreadPoolRun = Inr b1" "state b1 = kAborted"
    "flush_callback b1 = None" "pool_queue b1 = 0" "combined_error b1 = abort_status s1 b"
    "callback_calls b1 = callback_calls b @ [(cb, abort_status s1 b)]"
    "callback_threadpool b1 = callback_threadpool b" "submit_ok b1 = submit_ok b"
    "ops_queue b1 = ops_queue b"
    "error_collector b1 = error_collector b @ map (\<lambda>op. (yb_op op, s1)) (ops_queue b)"
    using Abort_delivers [OF assms, of s1] by blast
  have A: "if callback_threadpool b \<and> submit_ok b
               then (\<exists>b2. Abort s2 b1 = Inr b2
                       \<and> state b2 = kAborted
                       \<and> combined_error b2 = abort_status s2 b1
                       \<and> error_collector b2 =
                           error_collector b @ map (\<lambda>op. (yb_op op, s1)) (ops_queue b)
                             @ map (\<lambda>op. (yb_op op, s2)) (ops_queue b)
                       \<and> callback_calls b2 = callback_calls b1
                       \<and> ThreadPoolRun b2 = Inl BadFunctionCall)
               else Abort s2 b1 = Inl BadFunctionCall"
    using Abort_empty_slot [OF 1(3,4), of s2] 1(7,8,9,10) by (auto split: if_splits)
  have B: "callback_threadpool b \<and> submit_ok b \<longrightarrow>
         (\<exists>b2 b3. and_then (Abort s1 b) (Abort s2) = Inr b2
            \<and> state b2 = kAborted
            \<and> flush_callback b2 = Some cb
            \<and> callback_calls b2 = callback_calls b
            \<and> combined_error b2 = abort_status s2 b
            \<and> error_collector b2 =
                 error_collector b @ map (\<lambda>op. (yb_op op, s1)) (ops_queue b)
                   @ map (\<lambda>op. (yb_op op, s2)) (ops_queue b)
            \<and> ThreadPoolRun b2 = Inr b3
            \<and> callback_calls b3 = callback_calls b @ [(cb, abort_status s2 b)]
            \<and> flush_callback b3 = None
            \<and> ThreadPoolRun b3 = Inl BadFunctionCall)"
  proof
    assume p: "callback_threadpool b \<and> submit_ok b"
    obtain c1 where c1: "Abort s1 b = Inr c1"
      "error_collector c1 = error_collector b @ map (\<lambda>op. (yb_op op, s1)) (ops_queue b)"
      "ops_queue c1 = ops_queue b" "flush_callback c1 = Some cb"
      "callback_calls c1 = callback_calls b" "pool_queue c1 = 1"
      "callback_threadpool c1" "submit_ok c1"
      using Abort_submits [of b s1] p assms by auto
    obtain b2 where b2: "Abort s2 c1 = Inr b2" "state b2 = kAborted"
      "combined_error b2 = abort_status s2 c1"
      "error_collector b2 = error_collector c1 @ map (\<lambda>op. (yb_op op, s2)) (ops_queue c1)"
      "flush_callback b2 = Some cb" "callback_calls b2 = callback_calls b"
      "pool_queue b2 = Suc (Suc 0)"
      using Abort_submits [OF c1(7,8), of s2] c1(4,5,6) by auto
    have st: "abort_status s2 c1 = abort_status s2 b"
      using c1(2,3) by (rule abort_status_after_Abort)
    obtain b3 where b3: "ThreadPoolRun b2 = Inr b3"
      "callback_calls b3 = callback_calls b2 @ [(cb, combined_error b2)]"
      "flush_callback b3 = None" "pool_queue b3 = Suc 0"
      using ThreadPoolRun_delivers [OF b2(5,7)] by blast
    have "ThreadPoolRun b3 = Inl BadFunctionCall"
      using b3(3,4) by (rule ThreadPoolRun_empty_slot)
    then show "\<exists>b2 b3. and_then (Abort s1 b) (Abort s2) = Inr b2
            \<and> state b2 = kAborted
            \<and> flush_callback b2 = Some cb
            \<and> callback_calls b2 = callback_calls b
            \<and> combined_error b2 = abort_status s2 b
            \<and> error_collector b2 =
                 error_collector b @ map (\<lambda>op. (yb_op op, s1)) (ops_queue b)
                   @ map (\<lambda>op. (yb_op op, s2)) (ops_queue b)
            \<and> ThreadPoolRun b2 = Inr b3
            \<and> callback_calls b3 = callback_calls b @ [(cb, abort_status s2 b)]
            \<and> flush_callback b3 = None
            \<and> ThreadPoolRun b3 = Inl BadFunctionCall"
      using c1 b2 b3 st by auto
  qed
  show ?thesis
    using Abort_enters_FlushFinished [of s1 b] Abort_enters_FlushFinished [of s2 b1] 1 A B
    by blast
qed

theorem abort_not_idempotent_witness:
  "flush_callback pool_flushing = Some 7 \<and> pool_queue pool_flushing = 0
   \<and> callback_threadpool pool_flushing \<and> submit_ok pool_flushing
   \<and> map yb_op (ops_queue pool_flushing) = [write_op 1 ''k1'']
   \<and> map_sum id callback_calls (and_then (Abort timed_out pool_flushing) ThreadPoolRun)
       = Inr [(7, timed_out)]
   \<and> map_sum id error_collector (and_then (and_then (Abort timed_out pool_flushing)
        ThreadPoolRun) (Abort batch_aborted))
       = Inr [(write_op 1 ''k1'', timed_out), (write_op 1 ''k1'', batch_aborted)]
   \<and> map_sum id callback_calls (and_then (and_then (Abort timed_out pool_flushing)
        ThreadPoolRun) (Abort batch_aborted)) = Inr [(7, timed_out)]
   \<and> map_sum id combined_error (and_then (and_then (Abort timed_out pool_flushing)
        ThreadPoolRun) (Abort batch_aborted)) = Inr batch_aborted
   \<and> map_sum id callback_calls (and_then (and_then (Abort timed_out pool_flushing)
        (Abort batch_aborted)) ThreadPoolRun) = Inr [(7, batch_aborted)]
   \<and> map_sum id state (and_then (and_then (and_then (Abort timed_out pool_flushing)
        (Abort batch_aborted)) ThreadPoolRun) ThreadPoolRun) = Inl BadFunctionCall
   \<and> flush_callback inline_flushing = Some 7 \<and> pool_queue inline_flushing = 0
   \<and> map_sum id callback_calls (Abort timed_out inline_flushing) = Inr [(7, timed_out)]
   \<and> map_sum id state (and_then (Abort timed_out inline_flushing) (Abort batch_aborted))
       = Inl BadFunctionCall"
proof -
  have h: "flush_callback pool_flushing = Some 7" "pool_queue pool_flushing = 0"
    and p: "callback_threadpool pool_flushing" "submit_ok pool_flushing"
    and q: "map yb_op (ops_queue pool_flushing) = [write_op 1 ''k1'']"
    and e: "callback_calls pool_flushing = []" "error_collector pool_flushing = []"
      "abort_status timed_out pool_flushing = timed_out"
      "abort_status batch_aborted pool_flushing = batch_aborted"
    by code_simp+
  have i: "flush_callback inline_flushing = Some 7" "pool_queue inline_flushing = 0"
    and j: "map_sum id callback_calls (Abort timed_out inline_flushing) = Inr [(7, timed_out)]"
      "map_sum id state (and_then (Abort timed_out inline_flushing) (Abort batch_aborted))
         = Inl BadFunctionCall"
    by code_simp+
  have tp: "callback_threadpool pool_flushing \<and> submit_ok pool_flushing"
    using p by simp
  note t = abort_not_idempotent [OF h, of timed_out batch_aborted, unfolded if_P [OF tp]]
  from t obtain b1 b2 where b1: "and_then (Abort timed_out pool_flushing) ThreadPoolRun = Inr b1"
    "callback_calls b1 = callback_calls pool_flushing @ [(7, abort_status timed_out pool_flushing)]"
    and b2: "Abort batch_aborted b1 = Inr b2"
    "error_collector b2 = error_collector pool_flushing
                @ map (\<lambda>op. (yb_op op, timed_out)) (ops_queue pool_flushing)
                @ map (\<lambda>op. (yb_op op, batch_aborted)) (ops_queue pool_flushing)"
    "callback_calls b2 = callback_calls b1"
    by blast
  have c: "map_sum id combined_error (and_then (and_then (Abort timed_out pool_flushing)
        ThreadPoolRun) (Abort batch_aborted)) = Inr batch_aborted"
    by code_simp
  have m: "map (\<lambda>op. (yb_op op, s)) (ops_queue pool_flushing) = [(write_op 1 ''k1'', s)]" for s
    using q by (auto simp: map_eq_Cons_conv)
  have ec: "error_collector b2 = [(write_op 1 ''k1'', timed_out), (write_op 1 ''k1'', batch_aborted)]"
    using b2(2) e(2) by (simp add: m)
  from t tp obtain c2 c3 where s: "and_then (Abort timed_out pool_flushing) (Abort batch_aborted) = Inr c2"
    "ThreadPoolRun c2 = Inr c3"
    "callback_calls c3 = callback_calls pool_flushing @ [(7, abort_status batch_aborted pool_flushing)]"
    "ThreadPoolRun c3 = Inl BadFunctionCall"
    by blast
  have r1: "map_sum id callback_calls (and_then (Abort timed_out pool_flushing) ThreadPoolRun)
       = Inr [(7, timed_out)]"
    using b1 e by simp
  have r2: "map_sum id error_collector (and_then (and_then (Abort timed_out pool_flushing)
        ThreadPoolRun) (Abort batch_aborted))
       = Inr [(write_op 1 ''k1'', timed_out), (write_op 1 ''k1'', batch_aborted)]"
    "map_sum id callback_calls (and_then (and_then (Abort timed_out pool_flushing)
        ThreadPoolRun) (Abort batch_aborted)) = Inr [(7, timed_out)]"
    using b1 b2(1,3) ec e by simp_all
  have r3: "map_sum id callback_calls (and_then (and_then (Abort timed_out pool_flushing)
        (Abort batch_aborted)) ThreadPoolRun) = Inr [(7, batch_aborted)]"
    "map_sum id state (and_then (and_then (and_then (Abort timed_out pool_flushing)
        (Abort batch_aborted)) ThreadPoolRun) ThreadPoolRun) = Inl BadFunctionCall"
    using s e by simp_all
  show ?thesis
    using h p q i j c r1 r2 r3 by blast
qed

section \<open>The consistent-read flag of the RPCs (C6)\<close>

lemma length_set_need_metadata [simp]: "length (set_need_metadata fs gs) = length gs"
  by (induction fs gs rule: set_need_metadata.induct) simp_all

lemma create_rpcs_props:
  "create_rpcs b ncr gs = Inr rpcs \<Longrightarrow>
     length rpcs = length gs \<and> (\<forall>rpc\<in>set rpcs. rpc_need_consistent_read rpc = ncr)"
proof (induction gs arbitrary: rpcs)
  case Nil
  then show ?case by simp
next
  case (Cons g gs)
  then show ?case
    by (auto simp: Let_def CreateRpc_def split: if_splits sum.splits OpGroup.splits)
qed

text \<open>
  C6.  Every RPC that ExecuteOperations creates carries the same need_consistent_read:
  the force_consistent_read flag, or a transaction being attached, or the number of groups
  being greater than 1.  When the Batcher is in kTransactionPrepare and the transaction,
  if there is one, is ready, there is one such RPC per group; otherwise none is created.
\<close>

theorem need_consistent_read_per_batch:
  assumes "ExecuteOperations initial b = Inr b'"
  shows "(\<forall>rpc\<in>set (new_rpcs b b').
            rpc_need_consistent_read rpc =
              (force_consistent_read b \<or> transaction b \<or> 1 < length (groups b)))
         \<and> (if state b = kTransactionPrepare \<and> (prepare_ready b \<or> \<not> transaction b)
             then length (new_rpcs b b') = length (groups b) \<and> state b' = kTransactionReady
                  \<and> outstanding_rpcs b' = int (length (groups b))
             else new_rpcs b b' = [])"
  using assms
  by (auto simp: ExecuteOperations_def Let_def call_def new_rpcs_def
      dest!: create_rpcs_props split: if_splits sum.splits)

theorem need_consistent_read_per_batch_witness:
  "force_consistent_read two_groups = False \<and> transaction two_groups = False
   \<and> length (groups two_groups) = 2
   \<and> map_sum id (map rpc_need_consistent_read) (map_sum id sent_rpcs
        (ExecuteOperations True two_groups)) = Inr [True, True]"
proof -
  have v: "map_sum id (map rpc_need_consistent_read) (map_sum id sent_rpcs
        (ExecuteOperations True two_groups)) = Inr [True, True]"
    by code_simp
  then obtain b' where e: "ExecuteOperations True two_groups = Inr b'"
    by (cases "ExecuteOperations True two_groups") auto
  have h: "force_consistent_read two_groups = False" "transaction two_groups = False"
    "length (groups two_groups) = 2" "sent_rpcs two_groups = []"
    "state two_groups = kTransactionPrepare"
    by code_simp+
  have "\<forall>rpc\<in>set (sent_rpcs b'). rpc_need_consistent_read rpc"
    using need_consistent_read_per_batch [OF e] h by (simp add: new_rpcs_def)
  then show ?thesis
    using v h by simp
qed

section \<open>Per-row errors of a write response (C9)\<close>

lemma length_per_row_errors_loop [simp]:
  "length (per_row_errors_loop errs rpc q) = length q"
  by (induction errs arbitrary: q) (simp_all add: Let_def)

lemma per_row_errors_loop_nth:
  "i < length q \<Longrightarrow>
     per_row_errors_loop errs rpc q ! i = apply_row_errors (row_errors_at rpc errs i) (q ! i)"
proof (induction errs arbitrary: q)
  case Nil
  then show ?case by (simp add: row_errors_at_def apply_row_errors_def)
next
  case (Cons e errs)
  show ?case
  proof (cases "in_range rpc e")
    case False
    then show ?thesis
      using Cons by (simp add: row_errors_at_def in_range_def)
  next
    case True
    let ?j = "rpc_ops_begin rpc + row_index_size_t e"
    let ?q = "q[?j := (q ! ?j)\<lparr>error := row_status e\<rparr>]"
    have 1: "per_row_errors_loop (e # errs) rpc q ! i
        = apply_row_errors (row_errors_at rpc errs i) (?q ! i)"
      using True Cons.IH [of ?q] Cons.prems by (simp add: in_range_def Let_def)
    show ?thesis
    proof (cases "?j = i")
      case True
      then show ?thesis
        using 1 \<open>in_range rpc e\<close> Cons.prems
        by (simp add: row_errors_at_def apply_row_errors_def)
    next
      case False
      then show ?thesis
        using 1 by (simp add: row_errors_at_def)
    qed
  qed
qed

lemma per_row_errors_loop_filter:
  "per_row_errors_loop (filter (in_range rpc) errs) rpc q = per_row_errors_loop errs rpc q"
  by (induction errs arbitrary: q) (simp_all add: in_range_def Let_def)

lemma row_errors_at_outside:
  "\<not> (rpc_ops_begin rpc \<le> i \<and> i < rpc_ops_end rpc) \<Longrightarrow> row_errors_at rpc errs i = []"
  by (auto simp: row_errors_at_def in_range_def rpc_ops_size_def filter_empty_conv)

lemma sint_row_index_bounds:
  "- (2 ^ 31) \<le> sint (row_index e) \<and> sint (row_index e) < 2 ^ 31"
proof -
  have "- (2 ^ (LENGTH(32) - 1)) \<le> sint (row_index e)"
    by (rule sint_ge)
  moreover have "sint (row_index e) < 2 ^ (LENGTH(32) - 1)"
    by (rule sint_lt)
  ultimately show ?thesis
    by simp
qed

lemma row_index_size_t_mod:
  "row_index_size_t e = nat (sint (row_index e) mod 2 ^ 64)"
proof -
  have "unat (scast (row_index e) :: 64 word)
      = nat (uint (word_of_int (sint (row_index e)) :: 64 word))"
    by (simp only: scast_eq unat_eq_nat_uint)
  also have "\<dots> = nat (sint (row_index e) mod 2 ^ LENGTH(64))"
    by (simp only: uint_word_of_int)
  finally show ?thesis
    by (simp add: row_index_size_t_def)
qed

lemma mod_2_64_nonneg: "0 \<le> (k::int) \<Longrightarrow> k < 2 ^ 31 \<Longrightarrow> k mod 2 ^ 64 = k"
  by (rule mod_pos_pos_trivial) simp_all

lemma mod_2_64_neg:
  assumes "(k::int) < 0" and "- (2 ^ 31) \<le> k"
  shows "k mod 2 ^ 64 = 2 ^ 64 + k"
proof -
  have "(k + 2 ^ 64) mod 2 ^ 64 = k + 2 ^ 64"
    by (rule mod_pos_pos_trivial) (use assms in simp_all)
  then show ?thesis
    by (simp add: add.commute)
qed

lemma row_index_size_t_signed:
  "row_index_size_t e =
     (if 0 \<le> sint (row_index e) then nat (sint (row_index e))
      else nat (2 ^ 64 + sint (row_index e)))"
  using sint_row_index_bounds [of e] mod_2_64_nonneg [of "sint (row_index e)"]
    mod_2_64_neg [of "sint (row_index e)"]
  by (simp add: row_index_size_t_mod)

lemma in_range_signed:
  assumes "rpc_ops_size rpc < 2 ^ 63"
  shows "in_range rpc e = (0 \<le> sint (row_index e) \<and> nat (sint (row_index e)) < rpc_ops_size rpc)"
proof (cases "0 \<le> sint (row_index e)")
  case True
  then show ?thesis
    by (simp add: in_range_def row_index_size_t_signed)
next
  case False
  have "(2::int) ^ 63 \<le> 2 ^ 64 + sint (row_index e)"
    using sint_row_index_bounds [of e] by simp
  then have "(2::nat) ^ 63 \<le> nat (2 ^ 64 + sint (row_index e))"
    by (simp add: le_nat_iff)
  then show ?thesis
    using False assms by (simp add: in_range_def row_index_size_t_signed)
qed

lemma ProcessRpcStatus_frame:
  "ProcessRpcStatus rpc s b = b\<lparr>ops_queue := ops_queue (ProcessRpcStatus rpc s b)\<rparr>"
  by (simp add: ProcessRpcStatus_def)

lemma length_set_error_range [simp]: "length (set_error_range lo hi s q) = length q"
  by (simp add: set_error_range_def)

lemma ProcessWriteResponse_queue:
  assumes "ProcessWriteResponse rpc s resp b = Inr b'"
  shows "ops_queue b' =
           per_row_errors_loop (per_row_errors resp) rpc (ops_queue (ProcessRpcStatus rpc s b))"
  using assms
  by (auto simp: ProcessWriteResponse_def Let_def call_def split: if_splits option.splits)

lemma ProcessWriteResponse_defined:
  "(\<exists>b'. ProcessWriteResponse rpc s resp b = Inr b') =
     (rpc_ops_begin rpc \<le> rpc_ops_end rpc \<and> rpc_ops_end rpc \<le> length (ops_queue b))"
  by (auto simp: ProcessWriteResponse_def Let_def)

lemma length_ProcessRpcStatus [simp]:
  "length (ops_queue (ProcessRpcStatus rpc s b)) = length (ops_queue b)"
  by (simp add: ProcessRpcStatus_def)

text \<open>
  C9.  ProcessWriteResponse first applies the RPC-level status (ProcessRpcStatus), then
  the per-row errors in order.  An entry whose row index, read as an unsigned number, is
  below the number of ops of the RPC writes its decoded status to the op at that position
  of the RPC and to no other op; every other entry (an index at or beyond the number of
  ops, or a negative one) is skipped and changes nothing: the result is the same without
  these entries.  An op that no in-range entry points at keeps the error it had after the
  RPC-level step, which is its error on entry when the RPC status is ok; ops outside the
  range of the RPC are never written by an entry.
\<close>

theorem per_row_errors_applied:
  assumes "ProcessWriteResponse rpc s resp b = Inr b'"
  shows "length (ops_queue b') = length (ops_queue b)
    \<and> (\<forall>i<length (ops_queue b).
          ops_queue b' ! i =
            apply_row_errors (row_errors_at rpc (per_row_errors resp) i)
              (ops_queue (ProcessRpcStatus rpc s b) ! i))
    \<and> (\<forall>i. \<not> (rpc_ops_begin rpc \<le> i \<and> i < rpc_ops_end rpc)
          \<longrightarrow> row_errors_at rpc (per_row_errors resp) i = [])
    \<and> (ok s \<or> state b \<noteq> kTransactionReady
          \<longrightarrow> ops_queue (ProcessRpcStatus rpc s b) = ops_queue b)
    \<and> map_sum id ops_queue (ProcessWriteResponse rpc s
          (resp\<lparr>per_row_errors := filter (in_range rpc) (per_row_errors resp)\<rparr>) b)
        = Inr (ops_queue b')
    \<and> (rpc_ops_size rpc < 2 ^ 63 \<longrightarrow>
         (\<forall>e\<in>set (per_row_errors resp).
            in_range rpc e = (0 \<le> sint (row_index e)
              \<and> nat (sint (row_index e)) < rpc_ops_size rpc)))"
proof -
  note q = ProcessWriteResponse_queue [OF assms]
  have 1: "length (ops_queue b') = length (ops_queue b)"
    by (simp add: q)
  have 2: "\<forall>i<length (ops_queue b).
          ops_queue b' ! i =
            apply_row_errors (row_errors_at rpc (per_row_errors resp) i)
              (ops_queue (ProcessRpcStatus rpc s b) ! i)"
    by (simp add: q per_row_errors_loop_nth)
  have 3: "\<forall>i. \<not> (rpc_ops_begin rpc \<le> i \<and> i < rpc_ops_end rpc)
          \<longrightarrow> row_errors_at rpc (per_row_errors resp) i = []"
    using row_errors_at_outside by blast
  have 4: "ok s \<or> state b \<noteq> kTransactionReady
          \<longrightarrow> ops_queue (ProcessRpcStatus rpc s b) = ops_queue b"
    by (auto simp: ProcessRpcStatus_def)
  obtain b'' where f: "ProcessWriteResponse rpc s
          (resp\<lparr>per_row_errors := filter (in_range rpc) (per_row_errors resp)\<rparr>) b = Inr b''"
    using assms ProcessWriteResponse_defined [of rpc s resp b]
      ProcessWriteResponse_defined [of rpc s _ b] by blast
  have 5: "map_sum id ops_queue (ProcessWriteResponse rpc s
          (resp\<lparr>per_row_errors := filter (in_range rpc) (per_row_errors resp)\<rparr>) b)
        = Inr (ops_queue b')"
    using ProcessWriteResponse_queue [OF f] f by (simp add: q per_row_errors_loop_filter)
  have 6: "rpc_ops_size rpc < 2 ^ 63 \<longrightarrow>
         (\<forall>e\<in>set (per_row_errors resp).
            in_range rpc e = (0 \<le> sint (row_index e)
              \<and> nat (sint (row_index e)) < rpc_ops_size rpc))"
    using in_range_signed by blast
  show ?thesis
    using 1 2 3 4 5 6 by blast
qed


lemma row_error_response_sizes:
  "row_index_size_t \<lparr>row_index = 1, row_status = duplicate_key\<rparr> = 1"
  "row_index_size_t \<lparr>row_index = 5, row_status = not_found\<rparr> = 5"
  "row_index_size_t \<lparr>row_index = - 1, row_status = timed_out\<rparr> = 2 ^ 64 - 1"
  by (simp_all add: row_index_size_t_signed)

lemma row_error_response_loop:
  "per_row_errors_loop (per_row_errors row_error_response) write_rpc q =
     q[1 := (q ! 1)\<lparr>error := duplicate_key\<rparr>]"
  by (simp add: row_error_response_def row_error_response_sizes rpc_ops_size_def write_rpc_def)

theorem per_row_errors_applied_witness:
  "map_sum id (map error) (map_sum id ops_queue
      (ProcessWriteResponse write_rpc OK row_error_response three_sent))
     = Inr [OK, duplicate_key, OK]
   \<and> map_sum id length (map_sum id ops_queue
      (ProcessWriteResponse write_rpc OK row_error_response three_sent))
     = Inr (length (ops_queue three_sent))
   \<and> filter (in_range write_rpc) (per_row_errors row_error_response)
       = [\<lparr>row_index = 1, row_status = duplicate_key\<rparr>]"
proof -
  have q: "ops_queue three_sent =
      [resolved_op (write_op 0 ''k1'') 0 tablet_A, resolved_op (write_op 1 ''k1'') 1 tablet_A,
       resolved_op (write_op 2 ''k2'') 2 tablet_A]"
    by (simp add: three_sent_def)
  have r: "rpc_ops_begin write_rpc = 0" "rpc_ops_end write_rpc = 3"
    by (simp_all add: write_rpc_def)
  have p: "propagated_hybrid_time row_error_response = None"
    by (simp add: row_error_response_def)
  have e: "ProcessWriteResponse write_rpc OK row_error_response three_sent =
      Inr (three_sent\<lparr>ops_queue :=
             (ops_queue three_sent)[1 := (ops_queue three_sent ! 1)\<lparr>error := duplicate_key\<rparr>]\<rparr>)"
    by (simp add: ProcessWriteResponse_def ProcessRpcStatus_def r q row_error_response_loop
        OK_def ok_def p Let_def)
  have v: "map_sum id (map error) (map_sum id ops_queue
      (ProcessWriteResponse write_rpc OK row_error_response three_sent))
     = Inr [OK, duplicate_key, OK]"
    by (simp add: e q resolved_op_def new_InFlightOp_def)
  have "length (ops_queue (three_sent\<lparr>ops_queue :=
             (ops_queue three_sent)[1 := (ops_queue three_sent ! 1)\<lparr>error := duplicate_key\<rparr>]\<rparr>))
        = length (ops_queue three_sent)"
    using per_row_errors_applied [OF e] by blast
  then have l: "map_sum id length (map_sum id ops_queue
      (ProcessWriteResponse write_rpc OK row_error_response three_sent))
     = Inr (length (ops_queue three_sent))"
    by (simp only: e map_sum.simps id_apply)
  have f: "filter (in_range write_rpc) (per_row_errors row_error_response)
       = [\<lparr>row_index = 1, row_status = duplicate_key\<rparr>]"
    by (simp add: row_error_response_def in_range_def row_error_response_sizes rpc_ops_size_def r)
  show ?thesis
    using v l f by blast
qed

section \<open>The sort of AllLookupsDone\<close>

lemma group_rank_inject [simp]: "(group_rank x = group_rank y) = (x = y)"
  by (cases x; cases y) simp_all


lemma mset_insert_op: "mset (insert_op x ys) = add_mset x (mset ys)"
  by (induction ys) simp_all

lemma mset_sort_ops: "mset (sort_ops xs) = mset xs"
  by (induction xs) (simp_all add: mset_insert_op)


lemma set_sort_ops [simp]: "set (sort_ops xs) = set xs"
  using mset_sort_ops [of xs] by (metis set_mset_mset)

lemma length_sort_ops [simp]: "length (sort_ops xs) = length xs"
  using mset_sort_ops [of xs] by (metis size_mset)

lemma sort_ops_Nil_iff [simp]: "(sort_ops xs = []) = (xs = [])"
  using length_sort_ops [of xs] by (metis length_0_conv)








section \<open>AllLookupsDone, stage by stage\<close>

lemma CollectOpsErrors_loop_eq:
  "CollectOpsErrors_loop rnd q res =
     (map (check_partition rnd) q, fold record_error (map (check_partition rnd) q) res)"
  by (induction q arbitrary: res) (simp_all add: Let_def record_error_def)

lemma CollectOpsErrors_eq:
  "CollectOpsErrors b = (lookup_errors b, b\<lparr>ops_queue := checked_queue b\<rparr>)"
  by (simp add: CollectOpsErrors_def CollectOpsErrors_loop_eq lookup_errors_def checked_queue_def)

lemma partition_key_check_partition [simp]:
  "partition_key (check_partition rnd op) = partition_key op"
  by (simp add: check_partition_def split: option.splits)

lemma partition_key_inherit_error [simp]:
  "partition_key (inherit_error errs op) = partition_key op"
  by (simp add: inherit_error_def split: option.splits)

lemma sequence_number_check_partition [simp]:
  "sequence_number (check_partition rnd op) = sequence_number op"
  by (simp add: check_partition_def split: option.splits)

lemma sequence_number_inherit_error [simp]:
  "sequence_number (inherit_error errs op) = sequence_number op"
  by (simp add: inherit_error_def split: option.splits)

lemma yb_op_check_partition [simp]: "yb_op (check_partition rnd op) = yb_op op"
  by (simp add: check_partition_def split: option.splits)

lemma yb_op_inherit_error [simp]: "yb_op (inherit_error errs op) = yb_op op"
  by (simp add: inherit_error_def split: option.splits)

lemma tablet_check_partition [simp]: "tablet (check_partition rnd op) = tablet op"
  by (simp add: check_partition_def split: option.splits)

lemma tablet_inherit_error [simp]: "tablet (inherit_error errs op) = tablet op"
  by (simp add: inherit_error_def split: option.splits)

text \<open>The map of errors: every status in it is an error, and every op that has an error
  after the partition-key check finds its key in it.\<close>

lemma map_of_emplace:
  "map_of (emplace k s m) k' =
     (if map_of m k' = None \<and> k' = k then Some s else map_of m k')"
  by (auto simp: emplace_def map_add_def split: option.splits)

lemma fold_record_error_keeps:
  "map_of m k = Some e \<Longrightarrow> map_of (fold record_error cs m) k = Some e"
  by (induction cs arbitrary: m) (simp_all add: record_error_def map_of_emplace)

lemma fold_record_error_covers:
  "c \<in> set cs \<Longrightarrow> \<not> ok (error c) \<Longrightarrow>
     \<exists>e. map_of (fold record_error cs m) (partition_key c) = Some e"
proof (induction cs arbitrary: m)
  case Nil
  then show ?case by simp
next
  case (Cons a cs)
  show ?case
  proof (cases "c = a")
    case True
    then obtain e where "map_of (record_error a m) (partition_key c) = Some e"
      using Cons.prems(2)
      by (cases "map_of m (partition_key a)") (auto simp: record_error_def map_of_emplace)
    then show ?thesis
      using fold_record_error_keeps by auto
  next
    case False
    then show ?thesis
      using Cons by auto
  qed
qed

lemma fold_record_error_values:
  "\<forall>e\<in>ran (map_of m). \<not> ok e \<Longrightarrow> \<forall>e\<in>ran (map_of (fold record_error cs m)). \<not> ok e"
proof (induction cs arbitrary: m)
  case Nil
  then show ?case by simp
next
  case (Cons a cs)
  have "\<forall>e\<in>ran (map_of (record_error a m)). \<not> ok e"
    using Cons.prems by (auto simp: record_error_def ran_def map_of_emplace split: if_splits)
  then show ?case
    using Cons.IH by simp
qed

lemma fold_record_error_Nil:
  "fold record_error cs m = [] \<Longrightarrow> m = [] \<and> (\<forall>c\<in>set cs. ok (error c))"
proof (induction cs arbitrary: m)
  case Nil
  then show ?case by simp
next
  case (Cons a cs)
  then have "record_error a m = []" and r: "\<forall>c\<in>set cs. ok (error c)"
    by auto
  then show ?case
    using r by (auto simp: record_error_def emplace_def split: if_splits option.splits)
qed

lemma lookup_errors_covers:
  assumes "op \<in> set (ops_queue b)"
    and "\<not> ok (error (check_partition (simulate_mismatch b) op))"
  shows "\<exists>e. map_of (lookup_errors b) (partition_key op) = Some e \<and> \<not> ok e"
proof -
  let ?c = "check_partition (simulate_mismatch b) op"
  have "?c \<in> set (checked_queue b)"
    using assms(1) by (simp add: checked_queue_def)
  then obtain e where e: "map_of (lookup_errors b) (partition_key ?c) = Some e"
    using assms(2) fold_record_error_covers unfolding lookup_errors_def by blast
  have "\<forall>e\<in>ran (map_of (lookup_errors b)). \<not> ok e"
    unfolding lookup_errors_def by (rule fold_record_error_values) simp
  then have "\<not> ok e"
    using e by (auto simp: ran_def)
  then show ?thesis
    using e by simp
qed

lemma lookup_errors_Nil:
  assumes "lookup_errors b = []"
  shows "judged_queue b = checked_queue b" and "removed_ops b = []"
    and "surviving_ops b = checked_queue b"
proof -
  have a: "\<forall>c\<in>set (checked_queue b). ok (error c)"
    using assms fold_record_error_Nil unfolding lookup_errors_def by blast
  show j: "judged_queue b = checked_queue b"
    by (simp add: judged_queue_def assms inherit_error_def map_idI)
  show "removed_ops b = []"
    using a by (simp add: removed_ops_def j filter_empty_conv)
  show "surviving_ops b = checked_queue b"
    using a by (simp add: surviving_ops_def j)
qed

text \<open>Error contagion: an op of the queue that shares its partition key with an op that
  has an error after the partition-key check is not among the survivors.\<close>

lemma judged_key_failed:
  assumes "op \<in> set (ops_queue b)"
    and "\<not> ok (error (check_partition (simulate_mismatch b) op))"
    and "x \<in> set (judged_queue b)" and "partition_key x = partition_key op"
  shows "\<not> ok (error x)"
proof -
  obtain e where e: "map_of (lookup_errors b) (partition_key op) = Some e" "\<not> ok e"
    using lookup_errors_covers [OF assms(1,2)] by blast
  obtain c where c: "x = inherit_error (lookup_errors b) c" "partition_key c = partition_key op"
    using assms(3,4) by (auto simp: judged_queue_def)
  show ?thesis
    using e c by (simp add: inherit_error_def)
qed

lemma surviving_ops_key:
  assumes "op \<in> set (ops_queue b)"
    and "\<not> ok (error (check_partition (simulate_mismatch b) op))"
    and "x \<in> set (surviving_ops b)"
  shows "partition_key x \<noteq> partition_key op"
  using judged_key_failed [OF assms(1,2)] assms(3) by (auto simp: surviving_ops_def)

lemma CombineError_ops_queue_update:
  "CombineError op (b\<lparr>ops_queue := q, state := s\<rparr>) = (CombineError op b)\<lparr>ops_queue := q, state := s\<rparr>"
  by (simp add: CombineError_def Let_def call_def AddError_def)

lemma fold_CombineError_update:
  "fold CombineError xs (b\<lparr>ops_queue := q, state := s\<rparr>)
     = (fold CombineError xs b)\<lparr>ops_queue := q, state := s\<rparr>"
  by (induction xs arbitrary: b) (simp_all add: CombineError_ops_queue_update)

lemma error_collector_fold_CombineError:
  "error_collector (fold CombineError xs b)
     = error_collector b @ map (\<lambda>op. (yb_op op, error op)) xs"
  by (induction xs arbitrary: b) (simp_all add: CombineError_def Let_def call_def AddError_def)

lemma fold_CombineError_fields:
  shows "groups (fold CombineError xs b) = groups b"
    and "flush_callback (fold CombineError xs b) = flush_callback b"
    and "callback_calls (fold CombineError xs b) = callback_calls b"
    and "pool_queue (fold CombineError xs b) = pool_queue b"
    and "sent_rpcs (fold CombineError xs b) = sent_rpcs b"
    and "state (fold CombineError xs b) = state b"
    and "ops_queue (fold CombineError xs b) = ops_queue b"
    and "callback_threadpool (fold CombineError xs b) = callback_threadpool b"
    and "submit_ok (fold CombineError xs b) = submit_ok b"
    and "session_alive (fold CombineError xs b) = session_alive b"
    and "transaction (fold CombineError xs b) = transaction b"
    and "ops (fold CombineError xs b) = ops b"
proof -
  note w = without_errors_fold_CombineError [of xs b]
  show "groups (fold CombineError xs b) = groups b"
    using arg_cong [OF w, of groups] by (simp add: without_errors_def)
  show "flush_callback (fold CombineError xs b) = flush_callback b"
    using arg_cong [OF w, of flush_callback] by (simp add: without_errors_def)
  show "callback_calls (fold CombineError xs b) = callback_calls b"
    using arg_cong [OF w, of callback_calls] by (simp add: without_errors_def)
  show "pool_queue (fold CombineError xs b) = pool_queue b"
    using arg_cong [OF w, of pool_queue] by (simp add: without_errors_def)
  show "sent_rpcs (fold CombineError xs b) = sent_rpcs b"
    using arg_cong [OF w, of sent_rpcs] by (simp add: without_errors_def)
  show "state (fold CombineError xs b) = state b"
    using arg_cong [OF w, of state] by (simp add: without_errors_def)
  show "ops_queue (fold CombineError xs b) = ops_queue b"
    using arg_cong [OF w, of ops_queue] by (simp add: without_errors_def)
  show "callback_threadpool (fold CombineError xs b) = callback_threadpool b"
    using arg_cong [OF w, of callback_threadpool] by (simp add: without_errors_def)
  show "submit_ok (fold CombineError xs b) = submit_ok b"
    using arg_cong [OF w, of submit_ok] by (simp add: without_errors_def)
  show "session_alive (fold CombineError xs b) = session_alive b"
    using arg_cong [OF w, of session_alive] by (simp add: without_errors_def)
  show "transaction (fold CombineError xs b) = transaction b"
    using arg_cong [OF w, of transaction] by (simp add: without_errors_def)
  show "ops (fold CombineError xs b) = ops b"
    using arg_cong [OF w, of ops] by (simp add: without_errors_def)
qed


lemma ops_queue_state_update:
  "b\<lparr>ops_queue := q, state := s\<rparr> = b\<lparr>state := s, ops_queue := q\<rparr>"
  by (cases b) simp

lemma AllLookupsDone_removal:
  assumes "state b = kResolvingTablets"
  shows "AllLookupsDone b =
     (if surviving_ops b = [] then FlushFinished (after_removal b)
      else
        (case sort_ops (surviving_ops b) of
           [] \<Rightarrow> Inl InvalidReference
         | first # _ \<Rightarrow>
             (case group_loop (sort_ops (surviving_ops b)) 0 0 (op_group (yb_op first))
                     (get (tablet first)) (groups b) of
                Crashed f \<Rightarrow> Inl f
              | VersionMismatch s gs \<Rightarrow> Abort s ((after_sort b)\<lparr>groups := gs\<rparr>)
              | Grouped gs group_start \<Rightarrow>
                  ExecuteOperations True
                    ((after_sort b)\<lparr>groups := gs @ [\<lparr>group_begin = group_start,
                                        group_end = length (sort_ops (surviving_ops b)),
                                        need_metadata = False\<rparr>]\<rparr>))))"
proof (cases "lookup_errors b = []")
  case True
  note n = lookup_errors_Nil [OF True]
  show ?thesis
    using assms True
    by (simp add: AllLookupsDone_def CollectOpsErrors_eq Let_def n after_removal_def after_sort_def
        ops_queue_state_update
        del: group_loop.simps cong: list.case_cong grouping.case_cong)
next
  case False
  show ?thesis
    using assms False
    by (simp add: AllLookupsDone_def CollectOpsErrors_eq Let_def EraseIf_failed_eq
        fold_CombineError_update fold_CombineError_fields after_removal_def after_sort_def
        surviving_ops_def removed_ops_def judged_queue_def
        del: group_loop.simps cong: list.case_cong grouping.case_cong)
qed


lemma FlushFinished_frame:
  assumes "FlushFinished b = Inr b'"
  shows "ops_queue b' = ops_queue b" and "error_collector b' = error_collector b"
    and "sent_rpcs b' = sent_rpcs b" and "groups b' = groups b"
    and "state b' = (if state b = kAborted then kAborted else kComplete)"
    and "combined_error b' = final_status b"
  using assms
  by (auto simp: FlushFinished_def RunCallback_def Run_def Let_def call_def final_status_def
      CountErrors_def split: if_splits option.splits)

lemma Abort_frame:
  assumes "Abort s b = Inr b'"
  shows "ops_queue b' = ops_queue b"
    and "error_collector b' = error_collector b @ map (\<lambda>op. (yb_op op, s)) (ops_queue b)"
    and "sent_rpcs b' = sent_rpcs b" and "groups b' = groups b"
    and "state b' = kAborted"
    and "combined_error b' = abort_status s b"
proof -
  let ?b = "(AddError_all (ops_queue b) s b)\<lparr>combined_error := s, state := kAborted\<rparr>"
  have f: "FlushFinished ?b = Inr b'"
    using assms by (simp add: Abort_def)
  have "final_status ?b = abort_status s b"
    by (auto simp: final_status_def abort_status_def AddError_all_eq CountErrors_def)
  then show "ops_queue b' = ops_queue b"
    and "error_collector b' = error_collector b @ map (\<lambda>op. (yb_op op, s)) (ops_queue b)"
    and "sent_rpcs b' = sent_rpcs b" and "groups b' = groups b"
    and "state b' = kAborted"
    and "combined_error b' = abort_status s b"
    using FlushFinished_frame [OF f] by (simp_all add: AddError_all_eq)
qed

lemma check_version_cases:
  "check_partition_list_version op =
     (if partition_list_version (yb_op op) \<noteq> None \<and> tablet op = None then Inl InvalidReference
      else if version_mismatch op then
        Inr (Some (Status Aborted
          (RequestedPartitionListVersion (op_id (yb_op op)) (the (partition_list_version (yb_op op)))
             (tablet_partition_list_version (the (tablet op))))
          kTablePartitionListVersionDoesNotMatch))
      else Inr None)"
  by (auto simp: check_partition_list_version_def version_mismatch_def split: option.splits)

lemma group_loop_mismatch:
  assumes "\<forall>op\<in>set q. tablet op \<noteq> None" and "\<exists>op\<in>set q. version_mismatch op"
  shows "\<exists>s gs'. group_loop q it gstart cg ct gs = VersionMismatch s gs'
           \<and> code s = Aborted \<and> ClientError s = kTablePartitionListVersionDoesNotMatch"
  using assms
proof (induction q arbitrary: it gstart cg ct gs)
  case Nil
  then show ?case by simp
next
  case (Cons op q)
  show ?case
  proof (cases "version_mismatch op")
    case True
    then show ?thesis
      using Cons.prems(1) by (simp add: check_version_cases)
  next
    case False
    then have "\<exists>op\<in>set q. version_mismatch op" and "\<forall>op\<in>set q. tablet op \<noteq> None"
      using Cons.prems by auto
    then have "\<And>it gstart cg ct gs. \<exists>s gs'. group_loop q it gstart cg ct gs = VersionMismatch s gs'
           \<and> code s = Aborted \<and> ClientError s = kTablePartitionListVersionDoesNotMatch"
      using Cons.IH by blast
    then show ?thesis
      using False Cons.prems(1) by (auto simp: check_version_cases Let_def)
  qed
qed

lemma group_loop_VersionMismatch:
  "group_loop q it gstart cg ct gs = VersionMismatch s gs' \<Longrightarrow>
     code s = Aborted \<and> ClientError s = kTablePartitionListVersionDoesNotMatch
     \<and> (\<exists>op\<in>set q. version_mismatch op)"
proof (induction q arbitrary: it gstart cg ct gs)
  case Nil
  then show ?case by simp
next
  case (Cons op q)
  then show ?case
    by (auto simp: check_version_cases Let_def split: if_splits)
qed

section \<open>Partition list version mismatch (C7)\<close>

lemma after_sort_fields:
  "flush_callback (after_sort b) = flush_callback b"
  "pool_queue (after_sort b) = pool_queue b"
  "callback_calls (after_sort b) = callback_calls b"
  "sent_rpcs (after_sort b) = sent_rpcs b"
  "ops_queue (after_sort b) = sort_ops (surviving_ops b)"
  "state (after_sort b) = kTransactionPrepare"
  "groups (after_sort b) = groups b"
  "error_collector (after_sort b) =
     error_collector b @ map (\<lambda>op. (yb_op op, error op)) (removed_ops b)"
  by (simp_all add: after_sort_def after_removal_def fold_CombineError_fields
      error_collector_fold_CombineError)

text \<open>
  C7.  When an op that survived the removal of failed ops declares a partition list version
  other than the version of its resolved tablet (every surviving op having its tablet),
  AllLookupsDone ends in the state kAborted, the aggregated status is an Aborted status
  with client error kTablePartitionListVersionDoesNotMatch, no RPC is created, and the
  callback is invoked once with that status.
\<close>

theorem version_mismatch_aborts_batch:
  assumes "state b = kResolvingTablets" and "flush_callback b = Some cb" and "pool_queue b = 0"
    and "\<forall>x\<in>set (surviving_ops b). tablet x \<noteq> None"
    and "op \<in> set (surviving_ops b)"
    and "partition_list_version (yb_op op) = Some v" and "tablet op = Some t"
    and "tablet_partition_list_version t \<noteq> v"
  shows "\<exists>b' s. and_then (AllLookupsDone b) ThreadPoolRun = Inr b'
           \<and> state b' = kAborted
           \<and> combined_error b' = s
           \<and> code s = Aborted
           \<and> ClientError s = kTablePartitionListVersionDoesNotMatch
           \<and> new_rpcs b b' = []
           \<and> flush_callback b' = None
           \<and> callback_calls b' = callback_calls b @ [(cb, s)]"
proof -
  let ?q = "sort_ops (surviving_ops b)"
  have m: "version_mismatch op"
    using assms(6-8) by (simp add: version_mismatch_def)
  have ne: "surviving_ops b \<noteq> []"
    using assms(5) by auto
  then obtain first rest where q: "?q = first # rest"
    by (cases ?q) auto
  have "\<forall>x\<in>set ?q. tablet x \<noteq> None" and "\<exists>x\<in>set ?q. version_mismatch x"
    using assms(4,5) m by auto
  then obtain s gs' where
    g: "group_loop ?q 0 0 (op_group (yb_op first)) (get (tablet first)) (groups b)
          = VersionMismatch s gs'"
    and s: "code s = Aborted" "ClientError s = kTablePartitionListVersionDoesNotMatch"
    using group_loop_mismatch by blast
  let ?b = "(after_sort b)\<lparr>groups := gs'\<rparr>"
  have a: "AllLookupsDone b = Abort s ?b"
    using ne q g by (simp add: AllLookupsDone_removal [OF assms(1)])
  have c: "flush_callback ?b = Some cb" "pool_queue ?b = 0"
    using assms(2,3) by (simp_all add: after_sort_fields)
  have "\<not> ok s"
    using s by (simp add: ok_def)
  then have st: "abort_status s ?b = s"
    by (simp add: abort_status_def)
  obtain b' where b': "and_then (Abort s ?b) ThreadPoolRun = Inr b'" "state b' = kAborted"
    "flush_callback b' = None" "combined_error b' = s"
    "callback_calls b' = callback_calls b @ [(cb, s)]" "sent_rpcs b' = sent_rpcs b"
    using Abort_delivers [OF c, of s] st by (auto simp: after_sort_fields)
  show ?thesis
    using a b' s by (auto simp: new_rpcs_def)
qed

theorem version_mismatch_aborts_batch_witness:
  "map_sum id state (FlushAsync 7 False versioned_write) = Inr kResolvingTablets
   \<and> map_sum id state (and_then (and_then (FlushAsync 7 False versioned_write)
        (TabletLookupFinished 0 (Inr (Some tablet_A)))) ThreadPoolRun) = Inr kAborted
   \<and> map_sum id sent_rpcs (and_then (and_then (FlushAsync 7 False versioned_write)
        (TabletLookupFinished 0 (Inr (Some tablet_A)))) ThreadPoolRun) = Inr []
   \<and> map_sum id callback_calls (and_then (and_then (FlushAsync 7 False versioned_write)
        (TabletLookupFinished 0 (Inr (Some tablet_A)))) ThreadPoolRun)
       = Inr [(7, Status Aborted (RequestedPartitionListVersion 1 7 8)
                    kTablePartitionListVersionDoesNotMatch)]"
proof -
  define b where
    "b = (projr (FlushAsync 7 False versioned_write))
           \<lparr>ops_queue := [resolved_op ((write_op 1 ''k1'')\<lparr>partition_list_version := Some 7\<rparr>)
                             0 tablet_A],
            outstanding_lookups := 0\<rparr>"
  have f: "map_sum id state (FlushAsync 7 False versioned_write) = Inr kResolvingTablets"
    by code_simp
  have h: "state b = kResolvingTablets" "flush_callback b = Some 7" "pool_queue b = 0"
    "callback_calls b = []" "sent_rpcs b = []"
    unfolding b_def by code_simp+
  have sv: "surviving_ops b = [resolved_op ((write_op 1 ''k1'')\<lparr>partition_list_version := Some 7\<rparr>)
                             0 tablet_A]"
    unfolding b_def by code_simp
  have t: "\<forall>x\<in>set (surviving_ops b). tablet x \<noteq> None"
    "resolved_op ((write_op 1 ''k1'')\<lparr>partition_list_version := Some 7\<rparr>) 0 tablet_A
       \<in> set (surviving_ops b)"
    "partition_list_version (yb_op (resolved_op
       ((write_op 1 ''k1'')\<lparr>partition_list_version := Some 7\<rparr>) 0 tablet_A)) = Some 7"
    "tablet (resolved_op ((write_op 1 ''k1'')\<lparr>partition_list_version := Some 7\<rparr>) 0 tablet_A)
       = Some tablet_A"
    "tablet_partition_list_version tablet_A \<noteq> 7"
    by (simp_all add: sv resolved_op_def new_InFlightOp_def tablet_A_def)
  have l: "and_then (FlushAsync 7 False versioned_write)
        (TabletLookupFinished 0 (Inr (Some tablet_A))) = AllLookupsDone b"
    unfolding b_def
    by (simp add: versioned_write_def new_Batcher_def Add_def write_op_def FlushAsync_def Let_def
        OK_def ok_def call_def new_InFlightOp_def TabletLookupFinished_def resolved_op_def)
  obtain b' s where r: "and_then (AllLookupsDone b) ThreadPoolRun = Inr b'" "state b' = kAborted"
    "combined_error b' = s" "new_rpcs b b' = []" "callback_calls b' = callback_calls b @ [(7, s)]"
    using version_mismatch_aborts_batch [OF h(1-3) t] by blast
  have c: "map_sum id callback_calls (and_then (and_then (FlushAsync 7 False versioned_write)
        (TabletLookupFinished 0 (Inr (Some tablet_A)))) ThreadPoolRun)
       = Inr [(7, Status Aborted (RequestedPartitionListVersion 1 7 8)
                    kTablePartitionListVersionDoesNotMatch)]"
    by code_simp
  have "sent_rpcs b' = []"
    using r(4) h(5) by (simp add: new_rpcs_def)
  then have "map_sum id state (and_then (AllLookupsDone b) ThreadPoolRun) = Inr kAborted"
    "map_sum id sent_rpcs (and_then (AllLookupsDone b) ThreadPoolRun) = Inr []"
    using r(1,2) by simp_all
  then show ?thesis
    using f c l by simp
qed

section \<open>The groups AllLookupsDone builds\<close>

lemma ExecuteOperations_frame:
  assumes "ExecuteOperations initial b = Inr b'"
  shows "ops_queue b' = ops_queue b" and "error_collector b' = error_collector b"
    and "state b' = state b \<or> state b' = kTransactionReady"
    and "state b \<noteq> kAborted \<Longrightarrow> state b' \<noteq> kAborted"
  using assms
  by (auto simp: ExecuteOperations_def Let_def call_def split: if_splits sum.splits)

lemma group_loop_Cons_Grouped:
  assumes "group_loop (op # rest) it gstart cg ct gs = Grouped gs' gstart'"
  shows "check_partition_list_version op = Inr None"
    and "ct \<noteq> get (tablet op) \<or> cg \<noteq> op_group (yb_op op) \<Longrightarrow>
      group_loop rest (Suc it) it (op_group (yb_op op)) (get (tablet op))
        (gs @ [\<lparr>group_begin = gstart, group_end = it, need_metadata = False\<rparr>]) = Grouped gs' gstart'"
    and "\<not> (ct \<noteq> get (tablet op) \<or> cg \<noteq> op_group (yb_op op)) \<Longrightarrow>
      group_loop rest (Suc it) gstart cg ct gs = Grouped gs' gstart'"
proof -
  show c: "check_partition_list_version op = Inr None"
  proof (cases "check_partition_list_version op")
    case (Inl f)
    then show ?thesis using assms by simp
  next
    case (Inr r)
    then show ?thesis using assms by (cases r) simp_all
  qed
  show "ct \<noteq> get (tablet op) \<or> cg \<noteq> op_group (yb_op op) \<Longrightarrow>
      group_loop rest (Suc it) it (op_group (yb_op op)) (get (tablet op))
        (gs @ [\<lparr>group_begin = gstart, group_end = it, need_metadata = False\<rparr>]) = Grouped gs' gstart'"
    using assms c by (simp add: Let_def)
  show "\<not> (ct \<noteq> get (tablet op) \<or> cg \<noteq> op_group (yb_op op)) \<Longrightarrow>
      group_loop rest (Suc it) gstart cg ct gs = Grouped gs' gstart'"
    using assms c by (simp add: Let_def)
qed


lemma group_loop_ok:
  assumes "group_loop (drop it q) it gstart cg ct gs = Grouped gs' gstart'"
    and "gstart \<le> it" and "it \<le> length q" and "gstart < length q"
    and "cg = op_group (yb_op (q ! gstart))" and "ct = get (tablet (q ! gstart))"
    and "\<forall>k. gstart \<le> k \<and> k < it \<longrightarrow> same_group (q ! k) (q ! gstart)"
    and "\<forall>g\<in>set gs. group_ok q (group_begin g) (group_end g)"
  shows "(\<forall>g\<in>set gs'. group_ok q (group_begin g) (group_end g)) \<and> group_ok q gstart' (length q)"
  using assms
proof (induction "length q - it" arbitrary: it gstart cg ct gs)
  case 0
  from "0.hyps" "0.prems"(3) have e: "it = length q"
    by simp
  then have "gs' = gs" "gstart' = gstart"
    using "0.prems"(1) by simp_all
  moreover have "group_ok q gstart (length q)"
    using "0.prems"(4,7) e by (simp add: group_ok_def)
  ultimately show ?case
    using "0.prems"(8) by simp
next
  case (Suc n)
  from Suc.hyps(2) have lt: "it < length q"
    by simp
  have n: "n = length q - Suc it"
    using Suc.hyps(2) by simp
  have p: "group_loop (q ! it # drop (Suc it) q) it gstart cg ct gs = Grouped gs' gstart'"
    using Suc.prems(1) lt by (simp only: Cons_nth_drop_Suc)
  note step = group_loop_Cons_Grouped [OF p]
  show ?case
  proof (cases "ct \<noteq> get (tablet (q ! it)) \<or> cg \<noteq> op_group (yb_op (q ! it))")
    case True
    then have "gstart \<noteq> it"
      using Suc.prems(5,6) by auto
    then have l: "gstart < it"
      using Suc.prems(2) by simp
    let ?gs = "gs @ [\<lparr>group_begin = gstart, group_end = it, need_metadata = False\<rparr>]"
    have g: "group_loop (drop (Suc it) q) (Suc it) it (op_group (yb_op (q ! it)))
        (get (tablet (q ! it))) ?gs = Grouped gs' gstart'"
      using step(2) True by blast
    have "group_ok q gstart it"
      using l lt Suc.prems(7) by (simp add: group_ok_def)
    then have k: "\<forall>g\<in>set ?gs. group_ok q (group_begin g) (group_end g)"
      using Suc.prems(8) by simp
    have s: "\<forall>k. it \<le> k \<and> k < Suc it \<longrightarrow> same_group (q ! k) (q ! it)"
      by (auto simp: same_group_def less_Suc_eq)
    have "it \<le> Suc it" "Suc it \<le> length q"
      using lt by simp_all
    then show ?thesis
      using Suc.hyps(1) [OF n g _ _ lt refl refl s k] by blast
  next
    case False
    then have same: "same_group (q ! it) (q ! gstart)"
      using Suc.prems(5,6) by (simp add: same_group_def)
    have g: "group_loop (drop (Suc it) q) (Suc it) gstart cg ct gs = Grouped gs' gstart'"
      using step(3) False by blast
    have s: "\<forall>k. gstart \<le> k \<and> k < Suc it \<longrightarrow> same_group (q ! k) (q ! gstart)"
      using Suc.prems(7) same by (auto simp: less_Suc_eq)
    have "gstart \<le> Suc it" "Suc it \<le> length q"
      using lt Suc.prems(2) by simp_all
    then show ?thesis
      using Suc.hyps(1) [OF n g _ _ Suc.prems(4,5,6) s Suc.prems(8)] by blast
  qed
qed

lemma group_loop_groups_ok:
  assumes "group_loop (first # rest) 0 0 (op_group (yb_op first)) (get (tablet first)) []
             = Grouped gs group_start"
  shows "\<forall>g\<in>set (gs @ [\<lparr>group_begin = group_start, group_end = length (first # rest),
                            need_metadata = False\<rparr>]).
           group_ok (first # rest) (group_begin g) (group_end g)"
proof -
  have "(\<forall>g\<in>set gs. group_ok (first # rest) (group_begin g) (group_end g))
      \<and> group_ok (first # rest) group_start (length (first # rest))"
    by (rule group_loop_ok [of 0 "first # rest" 0 "op_group (yb_op first)" "get (tablet first)" "[]"])
      (use assms in \<open>simp_all del: group_loop.simps\<close>)
  then show ?thesis
    by simp
qed

lemma set_need_metadata_ranges:
  "map group_begin (set_need_metadata fs gs) = map group_begin gs
   \<and> map group_end (set_need_metadata fs gs) = map group_end gs"
  by (induction fs gs rule: set_need_metadata.induct) simp_all

lemma create_rpcs_ranges:
  "create_rpcs b ncr gs = Inr rpcs \<Longrightarrow>
     map rpc_ops_begin rpcs = map group_begin gs \<and> map rpc_ops_end rpcs = map group_end gs"
proof (induction gs arbitrary: rpcs)
  case Nil
  then show ?case by simp
next
  case (Cons g gs)
  then show ?case
    by (auto simp: Let_def CreateRpc_def split: if_splits sum.splits OpGroup.splits)
qed

text \<open>Groups that are in order make create_rpcs succeed: it fails only on an empty group
  or on one that starts beyond the queue.\<close>

lemma create_rpcs_defined:
  "\<forall>g\<in>set gs. group_ok (ops_queue b) (group_begin g) (group_end g) \<Longrightarrow>
     \<exists>rpcs. create_rpcs b ncr gs = Inr rpcs"
proof (induction gs)
  case Nil
  then show ?case by simp
next
  case (Cons g gs)
  then obtain rpcs where "create_rpcs b ncr gs = Inr rpcs"
    by auto
  moreover have "group_begin g < group_end g" "group_begin g < length (ops_queue b)"
    using Cons.prems by (auto simp: group_ok_def)
  ultimately show ?case
    by (auto simp: Let_def CreateRpc_def split: OpGroup.splits)
qed

lemma ExecuteOperations_rpc_ranges:
  assumes "ExecuteOperations initial b = Inr b'"
    and "\<forall>g\<in>set (groups b). group_ok (ops_queue b) (group_begin g) (group_end g)"
  shows "\<forall>rpc\<in>set (new_rpcs b b'). group_ok (ops_queue b') (rpc_ops_begin rpc) (rpc_ops_end rpc)"
proof -
  have q: "ops_queue b' = ops_queue b"
    using assms(1) by (rule ExecuteOperations_frame)
  have m: "new_rpcs b b' = []
      \<or> (map rpc_ops_begin (new_rpcs b b') = map group_begin (groups b)
          \<and> map rpc_ops_end (new_rpcs b b') = map group_end (groups b))"
    using assms(1)
    by (auto simp: ExecuteOperations_def Let_def call_def new_rpcs_def set_need_metadata_ranges
        dest!: create_rpcs_ranges split: if_splits sum.splits)
  have r: "\<forall>i<length (new_rpcs b b'). i < length (groups b)
      \<and> rpc_ops_begin (new_rpcs b b' ! i) = group_begin (groups b ! i)
      \<and> rpc_ops_end (new_rpcs b b' ! i) = group_end (groups b ! i)"
  proof (intro allI impI)
    fix i
    assume i: "i < length (new_rpcs b b')"
    then have n: "map rpc_ops_begin (new_rpcs b b') = map group_begin (groups b)"
      "map rpc_ops_end (new_rpcs b b') = map group_end (groups b)"
      using m by auto
    have l: "length (new_rpcs b b') = length (groups b)"
      using n(1) by (rule map_eq_imp_length_eq)
    have "map rpc_ops_begin (new_rpcs b b') ! i = map group_begin (groups b) ! i"
      "map rpc_ops_end (new_rpcs b b') ! i = map group_end (groups b) ! i"
      using n by simp_all
    then show "i < length (groups b)
      \<and> rpc_ops_begin (new_rpcs b b' ! i) = group_begin (groups b ! i)
      \<and> rpc_ops_end (new_rpcs b b' ! i) = group_end (groups b ! i)"
      using i l by simp
  qed
  show ?thesis
  proof
    fix rpc
    assume "rpc \<in> set (new_rpcs b b')"
    then obtain i where i: "i < length (new_rpcs b b')" "rpc = new_rpcs b b' ! i"
      by (auto simp: in_set_conv_nth)
    then have "groups b ! i \<in> set (groups b)"
      using r by simp
    then show "group_ok (ops_queue b') (rpc_ops_begin rpc) (rpc_ops_end rpc)"
      using assms(2) r i q by simp
  qed
qed

section \<open>What AllLookupsDone leaves behind\<close>

lemma AllLookupsDone_result:
  assumes "state b = kResolvingTablets" and "AllLookupsDone b = Inr b'"
  shows "ops_queue b' = sort_ops (surviving_ops b)"
    and "error_collector b' =
           error_collector b @ map (\<lambda>x. (yb_op x, error x)) (removed_ops b)
             @ (if state b' = kAborted
                then map (\<lambda>x. (yb_op x, combined_error b')) (ops_queue b') else [])"
proof -
  have "ops_queue b' = sort_ops (surviving_ops b) \<and> error_collector b' =
           error_collector b @ map (\<lambda>x. (yb_op x, error x)) (removed_ops b)
             @ (if state b' = kAborted
                then map (\<lambda>x. (yb_op x, combined_error b')) (ops_queue b') else [])"
  proof (cases "surviving_ops b = []")
    case True
    then have f: "FlushFinished (after_removal b) = Inr b'"
      using assms by (simp add: AllLookupsDone_removal)
    show ?thesis
      using FlushFinished_frame [OF f] True
      by (simp add: after_removal_def error_collector_fold_CombineError fold_CombineError_fields)
  next
    case False
    then obtain first rest where q: "sort_ops (surviving_ops b) = first # rest"
      by (cases "sort_ops (surviving_ops b)") auto
    show ?thesis
    proof (cases "group_loop (sort_ops (surviving_ops b)) 0 0 (op_group (yb_op first))
                     (get (tablet first)) (groups b)")
      case (Grouped gs group_start)
      then have e: "ExecuteOperations True
          ((after_sort b)\<lparr>groups := gs @ [\<lparr>group_begin = group_start,
              group_end = length (sort_ops (surviving_ops b)), need_metadata = False\<rparr>]\<rparr>) = Inr b'"
        using assms False q by (simp add: AllLookupsDone_removal del: group_loop.simps)
      show ?thesis
        using ExecuteOperations_frame [OF e] by (auto simp: after_sort_fields)
    next
      case (VersionMismatch s gs)
      then have a: "Abort s ((after_sort b)\<lparr>groups := gs\<rparr>) = Inr b'"
        using assms False q by (simp add: AllLookupsDone_removal del: group_loop.simps)
      have "\<not> ok s"
        using group_loop_VersionMismatch [OF VersionMismatch] by (simp add: ok_def)
      then have "abort_status s ((after_sort b)\<lparr>groups := gs\<rparr>) = s"
        by (simp add: abort_status_def)
      then show ?thesis
        using Abort_frame [OF a] by (simp add: after_sort_fields)
    next
      case (Crashed f)
      then show ?thesis
        using assms False q by (simp add: AllLookupsDone_removal del: group_loop.simps)
    qed
  qed
  then show "ops_queue b' = sort_ops (surviving_ops b)"
    and "error_collector b' =
           error_collector b @ map (\<lambda>x. (yb_op x, error x)) (removed_ops b)
             @ (if state b' = kAborted
                then map (\<lambda>x. (yb_op x, combined_error b')) (ops_queue b') else [])"
    by simp_all
qed

section \<open>The RPCs of AllLookupsDone\<close>

lemma new_rpcs_same_sent: "sent_rpcs c = sent_rpcs b \<Longrightarrow> new_rpcs b b' = new_rpcs c b'"
  by (simp add: new_rpcs_def)

lemma new_rpcs_Nil: "sent_rpcs b' = sent_rpcs b \<Longrightarrow> new_rpcs b b' = []"
  by (simp add: new_rpcs_def)

text \<open>The RPCs AllLookupsDone creates, on a Batcher that has no groups yet, each cover a
  group of the queue it leaves.\<close>

lemma AllLookupsDone_rpc_ranges:
  assumes "state b = kResolvingTablets" and "AllLookupsDone b = Inr b'" and "groups b = []"
  shows "\<forall>rpc\<in>set (new_rpcs b b'). group_ok (ops_queue b') (rpc_ops_begin rpc) (rpc_ops_end rpc)"
proof (cases "surviving_ops b = []")
  case True
  then have f: "FlushFinished (after_removal b) = Inr b'"
    using assms by (simp add: AllLookupsDone_removal)
  have "sent_rpcs b' = sent_rpcs b"
    using FlushFinished_frame(3) [OF f] by (simp add: after_removal_def fold_CombineError_fields)
  then show ?thesis
    by (simp add: new_rpcs_Nil)
next
  case False
  then obtain first rest where q: "sort_ops (surviving_ops b) = first # rest"
    by (cases "sort_ops (surviving_ops b)") auto
  show ?thesis
  proof (cases "group_loop (first # rest) 0 0 (op_group (yb_op first)) (get (tablet first)) []")
    case (Grouped gs group_start)
    let ?gs = "gs @ [\<lparr>group_begin = group_start, group_end = length (first # rest),
                      need_metadata = False\<rparr>]"
    let ?c = "(after_sort b)\<lparr>groups := ?gs\<rparr>"
    have e: "ExecuteOperations True ?c = Inr b'"
      using assms False q Grouped by (simp add: AllLookupsDone_removal del: group_loop.simps)
    have "\<forall>g\<in>set (groups ?c). group_ok (ops_queue ?c) (group_begin g) (group_end g)"
      using group_loop_groups_ok [OF Grouped] q by (simp add: after_sort_fields)
    then have "\<forall>rpc\<in>set (new_rpcs ?c b').
        group_ok (ops_queue b') (rpc_ops_begin rpc) (rpc_ops_end rpc)"
      by (rule ExecuteOperations_rpc_ranges [OF e])
    moreover have "new_rpcs b b' = new_rpcs ?c b'"
      by (rule new_rpcs_same_sent) (simp add: after_sort_fields)
    ultimately show ?thesis
      by simp
  next
    case (VersionMismatch s gs)
    then have a: "Abort s ((after_sort b)\<lparr>groups := gs\<rparr>) = Inr b'"
      using assms False q by (simp add: AllLookupsDone_removal del: group_loop.simps)
    have "sent_rpcs b' = sent_rpcs b"
      using Abort_frame(3) [OF a] by (simp add: after_sort_fields)
    then show ?thesis
      by (simp add: new_rpcs_Nil)
  next
    case (Crashed f)
    then show ?thesis
      using assms False q by (simp add: AllLookupsDone_removal del: group_loop.simps)
  qed
qed


section \<open>Error contagion by partition key (C4)\<close>

text \<open>
  C4.  Let an op of the queue have an error when AllLookupsDone has made its
  partition-key check (a lookup error, or the internal error of the check itself).  Then
  every op with the same partition key has an error after the contagion step and is
  removed; the queue AllLookupsDone leaves, the sorted survivors, holds no op with that
  key, and so no position of any RPC created does (each RPC covers a non-empty range of
  that queue); and the error collector has received one
  entry per removed op, the op with its error, in queue order (followed, only when the
  batch is aborted for a version mismatch, by one entry per surviving op).
\<close>

theorem error_contagion_by_partition_key:
  assumes "state b = kResolvingTablets" and "AllLookupsDone b = Inr b'"
    and "op \<in> set (ops_queue b)"
    and "\<not> ok (error (check_partition (simulate_mismatch b) op))"
  shows "(\<forall>x\<in>set (judged_queue b).
            partition_key x = partition_key op \<longrightarrow> \<not> ok (error x) \<and> x \<in> set (removed_ops b))
    \<and> (\<forall>x\<in>set (ops_queue b'). partition_key x \<noteq> partition_key op)
    \<and> (\<forall>rpc\<in>set (new_rpcs b b'). \<forall>i. rpc_ops_begin rpc \<le> i \<and> i < rpc_ops_end rpc
           \<and> i < length (ops_queue b') \<longrightarrow> partition_key (ops_queue b' ! i) \<noteq> partition_key op)
    \<and> (groups b = [] \<longrightarrow>
         (\<forall>rpc\<in>set (new_rpcs b b').
            rpc_ops_begin rpc < rpc_ops_end rpc \<and> rpc_ops_end rpc \<le> length (ops_queue b')))
    \<and> ops_queue b' = sort_ops (surviving_ops b)
    \<and> map yb_op (judged_queue b) = map yb_op (ops_queue b)
    \<and> map partition_key (judged_queue b) = map partition_key (ops_queue b)
    \<and> mset (removed_ops b) + mset (ops_queue b') = mset (judged_queue b)
    \<and> error_collector b' =
         error_collector b @ map (\<lambda>x. (yb_op x, error x)) (removed_ops b)
           @ (if state b' = kAborted
              then map (\<lambda>x. (yb_op x, combined_error b')) (ops_queue b') else [])"
proof -
  note r = AllLookupsDone_result [OF assms(1,2)]
  have 1: "\<forall>x\<in>set (judged_queue b).
            partition_key x = partition_key op \<longrightarrow> \<not> ok (error x) \<and> x \<in> set (removed_ops b)"
    using judged_key_failed [OF assms(3,4)] by (simp add: removed_ops_def)
  have 2: "\<forall>x\<in>set (ops_queue b'). partition_key x \<noteq> partition_key op"
    using surviving_ops_key [OF assms(3,4)] by (simp add: r(1))
  then have 3: "\<forall>rpc\<in>set (new_rpcs b b'). \<forall>i. rpc_ops_begin rpc \<le> i \<and> i < rpc_ops_end rpc
           \<and> i < length (ops_queue b') \<longrightarrow> partition_key (ops_queue b' ! i) \<noteq> partition_key op"
    by simp
  have 4: "map yb_op (judged_queue b) = map yb_op (ops_queue b)"
    "map partition_key (judged_queue b) = map partition_key (ops_queue b)"
    by (simp_all add: judged_queue_def checked_queue_def)
  have 5: "mset (removed_ops b) + mset (ops_queue b') = mset (judged_queue b)"
    by (simp add: r(1) mset_sort_ops removed_ops_def surviving_ops_def)
  have 6: "groups b = [] \<longrightarrow>
         (\<forall>rpc\<in>set (new_rpcs b b').
            rpc_ops_begin rpc < rpc_ops_end rpc \<and> rpc_ops_end rpc \<le> length (ops_queue b'))"
    using AllLookupsDone_rpc_ranges [OF assms(1,2)] by (simp add: group_ok_def)
  show ?thesis
    using 1 2 3 4 5 6 r by blast
qed

theorem error_contagion_by_partition_key_witness:
  "state contagion_batch = kResolvingTablets
   \<and> map_sum id state (TabletLookupFinished 2 (Inr (Some tablet_A)) lookups_pending)
       = map_sum id state (AllLookupsDone contagion_batch)
   \<and> map (\<lambda>x. (sequence_number x, partition_key x, ok (error x))) (ops_queue contagion_batch)
       = [(0, ''k1'', False), (1, ''k1'', True), (2, ''k2'', True)]
   \<and> map_sum id (map sequence_number) (map_sum id ops_queue (AllLookupsDone contagion_batch))
       = Inr [2]
   \<and> map_sum id (filter (\<lambda>x. partition_key x = ''k1''))
        (map_sum id ops_queue (AllLookupsDone contagion_batch)) = Inr []
   \<and> map_sum id (map snd) (map_sum id error_collector (AllLookupsDone contagion_batch))
       = Inr [not_found, not_found]
   \<and> map_sum id (map rpc_ops_end) (map_sum id sent_rpcs (AllLookupsDone contagion_batch))
       = Inr [1]"
proof -
  have s: "state contagion_batch = kResolvingTablets"
    by code_simp
  have l: "map_sum id state (TabletLookupFinished 2 (Inr (Some tablet_A)) lookups_pending)
       = map_sum id state (AllLookupsDone contagion_batch)"
    by code_simp
  have q: "map (\<lambda>x. (sequence_number x, partition_key x, ok (error x))) (ops_queue contagion_batch)
       = [(0, ''k1'', False), (1, ''k1'', True), (2, ''k2'', True)]"
    by code_simp
  have v: "map_sum id (map sequence_number) (map_sum id ops_queue (AllLookupsDone contagion_batch))
       = Inr [2]"
    "map_sum id (map snd) (map_sum id error_collector (AllLookupsDone contagion_batch))
       = Inr [not_found, not_found]"
    "map_sum id (map rpc_ops_end) (map_sum id sent_rpcs (AllLookupsDone contagion_batch))
       = Inr [1]"
    by code_simp+
  obtain b' where a: "AllLookupsDone contagion_batch = Inr b'"
    using v(1) by (cases "AllLookupsDone contagion_batch") auto
  have o: "ops_queue contagion_batch ! 0 \<in> set (ops_queue contagion_batch)"
    "\<not> ok (error (check_partition (simulate_mismatch contagion_batch)
        (ops_queue contagion_batch ! 0)))"
    "partition_key (ops_queue contagion_batch ! 0) = ''k1''"
    by code_simp+
  have "\<forall>x\<in>set (ops_queue b'). partition_key x \<noteq> ''k1''"
    using error_contagion_by_partition_key [OF s a o(1,2)] o(3) by simp
  then have "filter (\<lambda>x. partition_key x = ''k1'') (ops_queue b') = []"
    by (simp add: filter_empty_conv)
  then have f: "map_sum id (filter (\<lambda>x. partition_key x = ''k1''))
        (map_sum id ops_queue (AllLookupsDone contagion_batch)) = Inr []"
    by (simp add: a)
  show ?thesis
    using s l q v f by blast
qed


section \<open>Order within a group (C5)\<close>












section \<open>The callback runs at most once\<close>

































section \<open>The callback of a flush (C3)\<close>






end
